theory Spec2Isabelle
  imports Main "HOL-Library.Word"
begin

section \<open>Strings and errors\<close>

text \<open>
  A JavaScript string is a sequence of 16-bit code units, and its \<open>length\<close> counts
  them: a \<open>jstring\<close> is a list of 16-bit words.  \<open>js\<close> turns a literal into such a
  string and \<open>ch\<close> a character into its code unit.  \<open>LS\<close> and \<open>PS\<close> are the line and
  paragraph separators U+2028 and U+2029, the two line terminators beyond \<open>LF\<close> and
  \<open>CR\<close>.
\<close>

type_synonym jchar = "16 word"

type_synonym jstring = "jchar list"

abbreviation ch :: "char \<Rightarrow> jchar" where "ch \<equiv> of_char"
abbreviation js :: "string \<Rightarrow> jstring" where "js \<equiv> map of_char"

abbreviation TAB :: jchar where "TAB \<equiv> 0x09"
abbreviation LF :: jchar where "LF \<equiv> 0x0A"
abbreviation CR :: jchar where "CR \<equiv> 0x0D"
abbreviation LS :: jchar where "LS \<equiv> 0x2028"
abbreviation PS :: jchar where "PS \<equiv> 0x2029"

text \<open>
  \<open>new Error(msg)\<close> is \<open>Error msg\<close>.  \<open>SyntaxError\<close> is what \<open>JSON.parse\<close> throws,
  \<open>TypeError\<close> what a method call on \<open>null\<close> throws.
\<close>

datatype error = Error jstring | SyntaxError | TypeError

section \<open>Regular expressions with JavaScript's backtracking order\<close>

text \<open>
  \<open>rmatch r s\<close> lists the rests of \<open>s\<close> that remain after \<open>r\<close> has matched a prefix of
  \<open>s\<close>, in the order in which a backtracking matcher tries them: greedy quantifiers
  first take as much as they can.  An iteration of \<open>Star\<close> that consumes nothing is
  rejected, as in ECMAScript.
\<close>

datatype regex =
    Chars "jchar \<Rightarrow> bool"
  | Seq regex regex
  | Star regex
  | Opt regex

fun rmatch :: "regex \<Rightarrow> jstring \<Rightarrow> jstring list" where
  "rmatch (Chars p) [] = []"
| "rmatch (Chars p) (c # cs) = (if p c then [cs] else [])"
| "rmatch (Seq a b) s = concat (map (rmatch b) (rmatch a s))"
| "rmatch (Opt a) s = rmatch a s @ [s]"
| "rmatch (Star a) s =
     concat (map (\<lambda>s'. if length s' < length s then rmatch (Star a) s' else []) (rmatch a s))
     @ [s]"

declare rmatch.simps(5) [simp del]

definition Plus :: "regex \<Rightarrow> regex" where
  "Plus r = Seq r (Star r)"

definition Chr :: "jchar \<Rightarrow> regex" where
  "Chr c = Chars (\<lambda>x. x = c)"

text \<open>
  A regular expression of the source is a concatenation of parts, some of them capture
  groups.  \<open>rmatch_seq rs s\<close> matches the parts \<open>rs\<close> one after the other and lists, in
  backtracking order, the rests of \<open>s\<close> after each part.  \<open>exec rs s\<close> is
  \<open>RegExp.prototype.exec\<close> from \<open>lastIndex = 0\<close>: the first position of \<open>s\<close> where a
  match starts (as the rest \<open>at\<close> of \<open>s\<close> from there on) with the first match there.
  \<open>upto a b\<close> is the text of \<open>a\<close> in front of its rest \<open>b\<close>.
\<close>

fun rmatch_seq :: "regex list \<Rightarrow> jstring \<Rightarrow> jstring list list" where
  "rmatch_seq [] s = [[]]"
| "rmatch_seq (r # rs) s =
     concat (map (\<lambda>s'. map ((#) s') (rmatch_seq rs s')) (rmatch r s))"

fun exec :: "regex list \<Rightarrow> jstring \<Rightarrow> (jstring \<times> jstring list) option" where
  "exec rs [] = (case rmatch_seq rs [] of g # _ \<Rightarrow> Some ([], g) | [] \<Rightarrow> None)"
| "exec rs (c # cs) =
     (case rmatch_seq rs (c # cs) of g # _ \<Rightarrow> Some (c # cs, g) | [] \<Rightarrow> exec rs cs)"

definition upto :: "jstring \<Rightarrow> jstring \<Rightarrow> jstring" where
  "upto a b = take (length a - length b) a"

section \<open>Spec: the address of an operation\<close>

text \<open>
  Modelled from the spec: \<open>Spec.js\<close> is not among the sources.  The spec gives an address
  the components type, object id, version (timestamp \<open>+\<close> origin) and operation name,
  written \<open>/type#id!version.op\<close>, each component a token of \<open>[0-9A-Za-z_~]\<close> with an
  optional \<open>+\<close> extension.  \<open>isQuant\<close> is the class \<open>Spec.rsQuant\<close> and \<open>isTok\<close> the
  class of \<open>Spec.rT\<close>.
\<close>

definition isQuant :: "jchar \<Rightarrow> bool" where
  "isQuant c = (c = ch CHR ''/'' \<or> c = ch CHR ''#'' \<or> c = ch CHR ''!'' \<or> c = ch CHR ''.'')"

definition isTok :: "jchar \<Rightarrow> bool" where
  "isTok c = ((ch CHR ''0'' \<le> c \<and> c \<le> ch CHR ''9'') \<or> (ch CHR ''A'' \<le> c \<and> c \<le> ch CHR ''Z'')
     \<or> (ch CHR ''a'' \<le> c \<and> c \<le> ch CHR ''z'') \<or> c = ch CHR ''_'' \<or> c = ch CHR ''~'')"

definition rsQuant :: regex where
  "rsQuant = Chars isQuant"

definition rT :: regex where
  "rT = Plus (Chars isTok)"

record spec =
  sp_type :: "jstring option"
  sp_id :: "jstring option"
  sp_version :: "jstring option"
  sp_op :: "jstring option"

definition Spec_empty :: spec where
  "Spec_empty = \<lparr>sp_type = None, sp_id = None, sp_version = None, sp_op = None\<rparr>"

text \<open>
  Modelled from the spec: parsing an address from text.  The text is cut at its
  quantifiers; each quantifier files the token after it under its component.
\<close>

function Spec_split :: "jstring \<Rightarrow> (jchar \<times> jstring) list" where
  "Spec_split [] = []"
| "Spec_split (q # cs) =
     (q, takeWhile (\<lambda>c. \<not> isQuant c) cs) # Spec_split (dropWhile (\<lambda>c. \<not> isQuant c) cs)"
  by pat_completeness auto
termination
  by (relation "measure length") (auto simp: length_dropWhile_le less_Suc_eq_le)

definition Spec_put :: "spec \<Rightarrow> jchar \<times> jstring \<Rightarrow> spec" where
  "Spec_put sp qt =
     (if fst qt = ch CHR ''/'' then sp\<lparr>sp_type := Some (snd qt)\<rparr>
      else if fst qt = ch CHR ''#'' then sp\<lparr>sp_id := Some (snd qt)\<rparr>
      else if fst qt = ch CHR ''!'' then sp\<lparr>sp_version := Some (snd qt)\<rparr>
      else if fst qt = ch CHR ''.'' then sp\<lparr>sp_op := Some (snd qt)\<rparr>
      else sp)"

definition orElse :: "'a option \<Rightarrow> 'a option \<Rightarrow> 'a option" where
  "orElse a b = (case a of None \<Rightarrow> b | Some x \<Rightarrow> Some x)"

definition Spec_fill :: "spec \<Rightarrow> spec option \<Rightarrow> spec" where
  "Spec_fill sp defaults =
     (case defaults of
        None \<Rightarrow> sp
      | Some d \<Rightarrow> \<lparr>sp_type = orElse (sp_type sp) (sp_type d), sp_id = orElse (sp_id sp) (sp_id d),
                  sp_version = orElse (sp_version sp) (sp_version d),
                  sp_op = orElse (sp_op sp) (sp_op d)\<rparr>)"

text \<open>
  Modelled from the spec: \<open>new Spec(text, scope, context)\<close>.  Components the text leaves
  out are taken from the scope (the parent's type and id, for a patch entry), then from
  the abbreviation context.
\<close>

definition Spec_new :: "jstring \<Rightarrow> spec option \<Rightarrow> spec option \<Rightarrow> spec" where
  "Spec_new text scope context =
     Spec_fill (Spec_fill (foldl Spec_put Spec_empty (Spec_split text)) scope) context"

text \<open>Modelled from the spec: the accessors and renderings of an address.\<close>

definition Spec_part :: "jchar \<Rightarrow> jstring option \<Rightarrow> jstring" where
  "Spec_part q t = (case t of None \<Rightarrow> [] | Some x \<Rightarrow> q # x)"

definition Spec_toString :: "spec \<Rightarrow> jstring" where
  "Spec_toString sp =
     Spec_part (ch CHR ''/'') (sp_type sp) @ Spec_part (ch CHR ''#'') (sp_id sp)
     @ Spec_part (ch CHR ''!'') (sp_version sp) @ Spec_part (ch CHR ''.'') (sp_op sp)"

definition Spec_abbrev :: "jstring option \<Rightarrow> jstring option \<Rightarrow> jstring option" where
  "Spec_abbrev t c = (if t = c then None else t)"

definition Spec_toAbbrevString :: "spec \<Rightarrow> spec \<Rightarrow> jstring" where
  "Spec_toAbbrevString sp context =
     Spec_part (ch CHR ''/'') (Spec_abbrev (sp_type sp) (sp_type context))
     @ Spec_part (ch CHR ''#'') (Spec_abbrev (sp_id sp) (sp_id context))
     @ Spec_part (ch CHR ''!'') (Spec_abbrev (sp_version sp) (sp_version context))
     @ Spec_part (ch CHR ''.'') (Spec_abbrev (sp_op sp) (sp_op context))"

definition Spec_stampop :: "spec \<Rightarrow> jstring" where
  "Spec_stampop sp = Spec_part (ch CHR ''!'') (sp_version sp) @ Spec_part (ch CHR ''.'') (sp_op sp)"

definition Spec_typeId :: "spec \<Rightarrow> spec" where
  "Spec_typeId sp = Spec_empty\<lparr>sp_type := sp_type sp, sp_id := sp_id sp\<rparr>"

definition Spec_pattern :: "spec \<Rightarrow> jstring" where
  "Spec_pattern sp =
     (if sp_type sp = None then [] else (js ''/'')) @ (if sp_id sp = None then [] else (js ''#''))
     @ (if sp_version sp = None then [] else (js ''!'')) @ (if sp_op sp = None then [] else (js ''.''))"

definition Spec_stamp :: "spec \<Rightarrow> jstring option" where
  "Spec_stamp sp = map_option (takeWhile (\<lambda>c. c \<noteq> ch CHR ''+'')) (sp_version sp)"

definition Spec_origin :: "spec \<Rightarrow> jstring option" where
  "Spec_origin sp = map_option (\<lambda>v. drop 1 (dropWhile (\<lambda>c. c \<noteq> ch CHR ''+'') v)) (sp_version sp)"

definition Spec_author :: "spec \<Rightarrow> jstring option" where
  "Spec_author sp = map_option (takeWhile (\<lambda>c. c \<noteq> ch CHR ''~'')) (Spec_origin sp)"

section \<open>Op: an immutable operation\<close>

datatype op = Op (spec: spec) (val: jstring) (source: jstring) (patch: "op list option")

text \<open>
  The constructor from parts: \<open>value\<close> and \<open>source\<close> become the empty string when they
  are falsy (absent or empty).  A patch is a list by its type, so the constructor's
  check that the patch is an array cannot fail here.
\<close>

definition Op_new :: "spec \<Rightarrow> jstring option \<Rightarrow> jstring option \<Rightarrow> op list option \<Rightarrow> op" where
  "Op_new sp v src p =
     Op sp (case v of None \<Rightarrow> [] | Some x \<Rightarrow> x) (case src of None \<Rightarrow> [] | Some x \<Rightarrow> x) p"

subsection \<open>The op-parsing regexes\<close>

definition isWs :: "jchar \<Rightarrow> bool" where
  "isWs c = (c = ch CHR '' '' \<or> c = TAB)"

text \<open>
  The dot of a regular expression (no \<open>s\<close> flag, no \<open>u\<close> flag) matches every code unit
  but the four line terminators \<open>LF\<close>, \<open>CR\<close>, U+2028 and U+2029.
\<close>

definition isDot :: "jchar \<Rightarrow> bool" where
  "isDot c = (c \<noteq> LF \<and> c \<noteq> CR \<and> c \<noteq> LS \<and> c \<noteq> PS)"

definition rsSpec :: regex where
  "rsSpec = Plus (Seq rsQuant (Seq rT (Opt (Seq (Chr (ch CHR ''+'')) rT))))"

definition rsPatchOp :: regex where
  "rsPatchOp =
     Seq (Chr LF) (Seq (Plus (Chars isWs)) (Seq rsSpec (Seq (Plus (Chars isWs)) (Star (Chars isDot)))))"

text \<open>
  \<open>Op.reOp\<close> in parts: group 1 is the first part, group 2 the third, group 3 the fourth.
  \<open>Op.rePatchOp\<close> in parts: group 1 is the third part, group 2 the fifth.
\<close>

definition reOp :: "regex list" where
  "reOp = [rsSpec, Plus (Chars isWs), Star (Chars isDot), Star rsPatchOp]"

definition rePatchOp :: "regex list" where
  "rePatchOp = [Chr LF, Plus (Chars isWs), rsSpec, Plus (Chars isWs), Star (Chars isDot)]"

subsection \<open>What a match consumes\<close>

lemma rmatch_length: "x \<in> set (rmatch r s) \<Longrightarrow> length x \<le> length s"
proof (induction r s arbitrary: x rule: rmatch.induct)
  case (3 a b s)
  then obtain y where y: "y \<in> set (rmatch a s)" and x: "x \<in> set (rmatch b y)"
    by auto
  from "3.IH"(1) [OF y] "3.IH"(2) [OF y x] show ?case
    by simp
next
  case (5 a s)
  from "5.prems" consider "x = s"
    | y where "y \<in> set (rmatch a s)" "length y < length s" "x \<in> set (rmatch (Star a) y)"
    by (subst (asm) rmatch.simps(5)) (auto split: if_splits)
  then show ?case
  proof cases
    case 1
    then show ?thesis by simp
  next
    case 2
    from "5.IH"(2) [OF 2(1) 2(2) 2(3)] 2(2) show ?thesis
      by simp
  qed
qed (auto split: if_splits)

lemma rmatch_Chars_Seq_length:
  "x \<in> set (rmatch (Seq (Chars p) r) s) \<Longrightarrow> length x < length s"
  by (cases s) (auto split: if_splits dest: rmatch_length)

lemma rmatch_Seq_length:
  assumes "\<And>y. y \<in> set (rmatch a s) \<Longrightarrow> length y < length s"
    and "x \<in> set (rmatch (Seq a b) s)"
  shows "length x < length s"
proof -
  from assms(2) obtain y where "y \<in> set (rmatch a s)" "x \<in> set (rmatch b y)"
    by auto
  with assms(1) [of y] rmatch_length [of x b y] show ?thesis
    by simp
qed

lemma rmatch_rsSpec_length: "x \<in> set (rmatch rsSpec s) \<Longrightarrow> length x < length s"
  unfolding rsSpec_def Plus_def rsQuant_def
  by (erule rmatch_Seq_length [rotated]) (erule rmatch_Chars_Seq_length)

lemma rmatch_Chr_length: "x \<in> set (rmatch (Chr c) s) \<Longrightarrow> length x < length s"
  unfolding Chr_def by (cases s) (auto split: if_splits)

lemma rmatch_seq_shape:
  "g \<in> set (rmatch_seq rs s) \<Longrightarrow> length g = length rs \<and> (\<forall>x \<in> set g. length x \<le> length s)"
proof (induction rs arbitrary: s g)
  case Nil
  then show ?case by simp
next
  case (Cons r rs)
  then obtain y g' where y: "y \<in> set (rmatch r s)" and g': "g' \<in> set (rmatch_seq rs y)"
    and g: "g = y # g'"
    by auto
  from Cons.IH [OF g'] rmatch_length [OF y] g show ?case
    by auto
qed

lemma rmatch_seq_first:
  assumes "g \<in> set (rmatch_seq (r # rs) s)"
  shows "\<exists>y \<in> set (rmatch r s). \<forall>x \<in> set g. length x \<le> length y"
proof -
  from assms obtain y g' where y: "y \<in> set (rmatch r s)" and g': "g' \<in> set (rmatch_seq rs y)"
    and g: "g = y # g'"
    by auto
  from rmatch_seq_shape [OF g'] g have "\<forall>x \<in> set g. length x \<le> length y"
    by auto
  with y show ?thesis by blast
qed

lemma exec_Some:
  "exec rs s = Some (at, g) \<Longrightarrow> g \<in> set (rmatch_seq rs at) \<and> length at \<le> length s"
proof (induction s)
  case Nil
  then show ?case by (auto split: list.splits)
next
  case (Cons c cs)
  then show ?case by (cases "rmatch_seq rs (c # cs)") auto
qed

lemma exec_reOp_shorter:
  assumes "exec reOp s = Some (at, g)"
  shows "length (last g) < length s" and "length g = 4"
proof -
  from exec_Some [OF assms] have g: "g \<in> set (rmatch_seq reOp at)" and at: "length at \<le> length s"
    by simp_all
  from rmatch_seq_shape [OF g] show len: "length g = 4"
    by (simp add: reOp_def)
  then have "last g \<in> set g"
    by (cases g) auto
  moreover from g obtain y where "y \<in> set (rmatch rsSpec at)" "\<forall>x \<in> set g. length x \<le> length y"
    unfolding reOp_def using rmatch_seq_first by blast
  ultimately show "length (last g) < length s"
    using at rmatch_rsSpec_length [of y at] by fastforce
qed

lemma exec_rePatchOp_shorter:
  assumes "exec rePatchOp s = Some (at, g)"
  shows "length (last g) < length s" and "length g = 5"
proof -
  from exec_Some [OF assms] have g: "g \<in> set (rmatch_seq rePatchOp at)" and at: "length at \<le> length s"
    by simp_all
  from rmatch_seq_shape [OF g] show len: "length g = 5"
    by (simp add: rePatchOp_def)
  then have "last g \<in> set g"
    by (cases g) auto
  moreover from g obtain y where "y \<in> set (rmatch (Chr LF) at)" "\<forall>x \<in> set g. length x \<le> length y"
    unfolding rePatchOp_def using rmatch_seq_first by blast
  ultimately show "length (last g) < length s"
    using at rmatch_Chr_length [of y LF at] by fastforce
qed

subsection \<open>Op.parse\<close>

text \<open>
  One match \<open>mm\<close> of \<open>Op.rePatchOp\<close> as a nested op: \<open>mm[1]\<close> is its address, read in
  the scope of the parent's type and id, \<open>mm[2]\<close> its value.  A match of \<open>Op.rePatchOp\<close>
  has five rests and a match of \<open>Op.reOp\<close> four, one for each part, so the positions
  read below exist.
\<close>

definition Op_of_patch_match :: "jstring \<times> jstring list \<Rightarrow> spec \<Rightarrow> jstring option \<Rightarrow> op" where
  "Op_of_patch_match mm typeId src =
     (let g = snd mm;
          op_spec = Spec_new (upto (g ! 1) (g ! 2)) (Some typeId) None
      in Op_new op_spec (Some (upto (g ! 3) (g ! 4))) src None)"

text \<open>
  The inner loop of \<open>Op.parse\<close>, \<open>while (mm = Op.rePatchOp.exec(patch_str))\<close>.  The regex
  is global, so each search starts where the last match ended.
\<close>

function Op_parse_patch :: "jstring \<Rightarrow> spec \<Rightarrow> jstring option \<Rightarrow> op list" where
  "Op_parse_patch patch_str typeId src =
     (case exec rePatchOp patch_str of
        None \<Rightarrow> []
      | Some mm \<Rightarrow> Op_of_patch_match mm typeId src # Op_parse_patch (last (snd mm)) typeId src)"
  by pat_completeness auto
termination
  by (relation "measure (\<lambda>(s, t, src). length s)") (auto dest: exec_rePatchOp_shorter(1))

declare Op_parse_patch.simps [simp del]

text \<open>
  One match \<open>m\<close> of \<open>Op.reOp\<close> as an op: \<open>m[1]\<close> is the address, \<open>m[2]\<close> the value and
  \<open>m[3]\<close> the text of the patch lines; an empty \<open>m[3]\<close> leaves the patch \<open>null\<close>.
\<close>

definition Op_of_match :: "jstring \<times> jstring list \<Rightarrow> jstring option \<Rightarrow> spec option \<Rightarrow> op" where
  "Op_of_match m src context =
     (let g = snd m;
          sp = Spec_new (upto (fst m) (g ! 0)) None context;
          v = upto (g ! 1) (g ! 2);
          patch_str = upto (g ! 2) (g ! 3);
          p = (if patch_str = [] then None
               else Some (Op_parse_patch patch_str (Spec_typeId sp) src))
      in Op_new sp (Some v) src p)"

text \<open>
  The outer loop, \<open>while (m = Op.reOp.exec(rem))\<close>, together with \<open>rem.substr(d)\<close>: the
  ops of all matches and the text after the last match (all of the text when nothing
  matches).
\<close>

definition Op_push :: "op \<Rightarrow> op list \<times> jstring \<Rightarrow> op list \<times> jstring" where
  "Op_push x r = (x # fst r, snd r)"

function Op_parse_loop :: "jstring \<Rightarrow> jstring option \<Rightarrow> spec option \<Rightarrow> op list \<times> jstring" where
  "Op_parse_loop rem src context =
     (case exec reOp rem of
        None \<Rightarrow> ([], rem)
      | Some m \<Rightarrow> Op_push (Op_of_match m src context) (Op_parse_loop (last (snd m)) src context))"
  by pat_completeness auto
termination
  by (relation "measure (\<lambda>(s, src, c). length s)") (auto dest: exec_reOp_shorter(1))

declare Op_parse_loop.simps [simp del]

text \<open>
  After the loop: a run of newlines at the very start of the rest is dropped
  (\<open>/\n+/g.exec(rem)\<close> with \<open>index === 0\<close>).
\<close>

definition Op_strip_nl :: "jstring \<Rightarrow> jstring" where
  "Op_strip_nl rem =
     (case exec [Plus (Chr LF)] rem of
        None \<Rightarrow> rem
      | Some (at, g) \<Rightarrow> if length at = length rem then last g else rem)"

definition Op_parse :: "jstring \<Rightarrow> jstring option \<Rightarrow> spec option \<Rightarrow> error + op list \<times> jstring" where
  "Op_parse str src context =
     (let parsed = Op_parse_loop str src context;
          rem = Op_strip_nl (snd parsed)
      in if LF \<in> set rem \<and> exec reOp rem = None then Inl (Error (js ''unparseable input''))
         else if (2::int) ^ 23 < int (length rem) then Inl (Error (js ''large unparseable input''))
         else Inr (fst parsed, rem))"

subsection \<open>Op.prototype.toString\<close>

definition Op_toShortString :: "op \<Rightarrow> jstring" where
  "Op_toShortString o' = Spec_stampop (spec o') @ TAB # val o'"

definition Op_toString :: "op \<Rightarrow> spec option \<Rightarrow> jstring" where
  "Op_toString o' context =
     (let spec_str = (case context of None \<Rightarrow> Spec_toString (spec o')
                      | Some c \<Rightarrow> Spec_toAbbrevString (spec o') c);
          line = spec_str @ TAB # val o'
      in case patch o' of
           None \<Rightarrow> line
         | Some ps \<Rightarrow>
             if sp_op (spec o') = Some (js ''on'')
             then foldl (\<lambda>l p. l @ LF # TAB # Op_toShortString p) line ps
             else line)"

section \<open>OpStream: the connection\<close>

text \<open>
  The connection object with what it does to its surroundings written into the state:
  \<open>stream\<close> says that \<open>this.stream\<close> is not \<open>null\<close>; \<open>written\<close> lists the parcels
  passed to \<open>stream.write\<close>, \<open>ended\<close> counts the calls of \<open>stream.end\<close>, \<open>emitted\<close> lists
  the events given to \<open>emit\<close> and \<open>pushed\<close> the ops given to \<open>push\<close> (the deliveries to the
  consumer), \<open>timeouts\<close> counts the callbacks of \<open>setTimeout\<close> that have not run yet.
  \<open>flush_timeout\<close> says that \<open>this.flush_timeout\<close> holds a timer handle.  \<open>write_throws\<close>
  is the exception the transport throws on a write, if any, and \<open>now\<close> is the clock
  \<open>new Date().getTime()\<close> reads.  \<open>asyncFlush\<close> and \<open>ctx\<close> (\<open>this.context\<close>) are properties
  the constructor leaves unset.

  \<open>on_error\<close>, \<open>on_id\<close> and \<open>on_end\<close> are the listeners the user of the connection has
  attached with \<open>on('error', f)\<close>, \<open>on('id', f)\<close> and \<open>on('end', f)\<close>, if any; the
  constructor attaches none.  A listener is known by what a call of it does: it returns,
  or it throws.  No listener calls back into the connection, and \<open>push\<close> hands the op to
  the consumer without raising.
\<close>

datatype event = EvError error | EvId op | EvEnd

datatype listener = Returns | Throws error

record options =
  opt_ssn_id :: "jstring option"
  opt_db_id :: "jstring option"
  opt_stamp :: "jstring option"
  keepAlive :: bool
  keepAliveInterval :: "int option"
  restrictAuthor :: "jstring option"

record 'j opstream =
  stream :: bool
  options :: options
  pending_s :: "op list"
  ssn_id :: "jstring option"
  db_id :: "jstring option"
  stamp :: "jstring option"
  peer_ssn_id :: "jstring option"
  peer_db_id :: "jstring option"
  peer_stamp :: "jstring option"
  peer_options :: "'j option"
  remainder :: jstring
  flush_timeout :: bool
  lastSendTime :: int
  asyncFlush :: bool
  ctx :: "spec option"
  timeouts :: nat
  written :: "jstring list"
  ended :: nat
  emitted :: "event list"
  pushed :: "op list"
  write_throws :: "error option"
  now :: int
  on_error :: "listener option"
  on_id :: "listener option"
  on_end :: "listener option"

text \<open>
  A method of the connection either returns, \<open>Inr\<close> with the state it leaves, or throws,
  \<open>Inl\<close> with the exception and the state at the throw.
\<close>

type_synonym 'j outcome = "error \<times> 'j opstream + 'j opstream"

text \<open>A string is falsy when it is absent or empty.\<close>

definition truthy :: "jstring option \<Rightarrow> bool" where
  "truthy s = (case s of None \<Rightarrow> False | Some x \<Rightarrow> x \<noteq> [])"

definition or_null :: "jstring option \<Rightarrow> jstring option" where
  "or_null s = (if truthy s then s else None)"

text \<open>
  The constructor: \<open>has_stream\<close> says that a stream with an \<open>on\<close> method was given;
  \<open>OpStream_init\<close> is the connection it returns then.  No handshake is sent.
\<close>

definition OpStream_init :: "options \<Rightarrow> 'j opstream" where
  "OpStream_init opts =
     \<lparr>stream = True, options = opts, pending_s = [],
      ssn_id = or_null (opt_ssn_id opts), db_id = or_null (opt_db_id opts),
      stamp = (if truthy (opt_stamp opts) then opt_stamp opts else Some (js ''0'')),
      peer_ssn_id = None, peer_db_id = None, peer_stamp = None, peer_options = None,
      remainder = [], flush_timeout = False, lastSendTime = 0, asyncFlush = False,
      ctx = None, timeouts = 0, written = [], ended = 0, emitted = [], pushed = [],
      write_throws = None, now = 0, on_error = None, on_id = None, on_end = None\<rparr>"

definition OpStream_new :: "bool \<Rightarrow> options \<Rightarrow> error + 'j opstream" where
  "OpStream_new has_stream opts =
     (if has_stream then Inr (OpStream_init opts) else Inl (Error (js ''no stream provided'')))"

text \<open>
  \<open>emit\<close> of the \<open>EventEmitter\<close> base class calls the listener of the event.  An \<open>error\<close>
  event that finds no listener is thrown: \<open>emit('error', err)\<close> then raises \<open>err\<close>.
  Any other event without a listener is dropped.
\<close>

definition listener_of :: "'j opstream \<Rightarrow> event \<Rightarrow> listener option" where
  "listener_of st e =
     (case e of EvError err \<Rightarrow> on_error st | EvId x \<Rightarrow> on_id st | EvEnd \<Rightarrow> on_end st)"

definition emit :: "'j opstream \<Rightarrow> event \<Rightarrow> 'j outcome" where
  "emit st e =
     (let st1 = st\<lparr>emitted := emitted st @ [e]\<rparr>
      in case listener_of st e of
           Some Returns \<Rightarrow> Inr st1
         | Some (Throws ex) \<Rightarrow> Inl (ex, st1)
         | None \<Rightarrow> (case e of EvError err \<Rightarrow> Inl (err, st1) | EvId x \<Rightarrow> Inr st1 | EvEnd \<Rightarrow> Inr st1))"

definition push :: "'j opstream \<Rightarrow> op \<Rightarrow> 'j opstream" where
  "push st x = st\<lparr>pushed := pushed st @ [x]\<rparr>"

text \<open>
  \<open>end()\<close> on an open connection and without an argument, as \<open>onStreamError\<close> calls it:
  \<open>this.stream.end(); this.stream = null\<close>.
\<close>

definition OpStream_close :: "'j opstream \<Rightarrow> 'j opstream" where
  "OpStream_close st = st\<lparr>ended := Suc (ended st), stream := False\<rparr>"

text \<open>
  \<open>onStreamError\<close>: when \<open>emit\<close> throws, the exception leaves \<open>onStreamError\<close> before the
  transport is ended and before \<open>this.stream\<close> is cleared.
\<close>

definition onStreamError :: "'j opstream \<Rightarrow> error \<Rightarrow> 'j outcome" where
  "onStreamError st err =
     (if stream st
      then (case emit st (EvError err) of
              Inl thrown \<Rightarrow> Inl thrown
            | Inr st1 \<Rightarrow>
                Inr (if stream st1 then (OpStream_close st1)\<lparr>stream := False\<rparr> else st1))
      else Inr st)"

text \<open>
  \<open>pending_s.join('')\<close> turns every queued op into text with \<open>toString()\<close> and puts
  nothing between them.  An exception of the transport's \<open>write\<close> is caught and goes to
  \<open>onStreamError\<close>, whose own exception, if any, leaves \<open>flush\<close>.
\<close>

definition flush :: "'j opstream \<Rightarrow> 'j outcome" where
  "flush st =
     (if \<not> stream st then Inr st
      else (let parcel = concat (map (\<lambda>x. Op_toString x None) (pending_s st));
                st1 = st\<lparr>pending_s := []\<rparr>
            in case write_throws st1 of
                 Some ioex \<Rightarrow> onStreamError st1 ioex
               | None \<Rightarrow> Inr (st1\<lparr>written := written st1 @ [parcel], lastSendTime := now st1\<rparr>)))"

definition OpStream__write :: "'j opstream \<Rightarrow> op \<Rightarrow> 'j outcome" where
  "OpStream__write st x =
     (let st1 = st\<lparr>pending_s := pending_s st @ [x]\<rparr>
      in if asyncFlush st1
         then (if \<not> flush_timeout st1
               then Inr (st1\<lparr>flush_timeout := True, timeouts := Suc (timeouts st1)\<rparr>)
               else Inr st1)
         else flush st1)"

text \<open>
  \<open>write\<close> (and \<open>deliver\<close> and \<open>send\<close>, the same function) is the \<open>write\<close> of the Duplex
  base class, which hands the op to \<open>_write\<close>.  \<open>OpStream\<close> replaces \<open>end\<close>, so the
  writable side of the base class is never ended and \<open>write\<close> raises nothing itself.
\<close>

definition OpStream_write :: "'j opstream \<Rightarrow> op \<Rightarrow> 'j outcome" where
  "OpStream_write st x = OpStream__write st x"

text \<open>The event loop runs a pending \<open>setTimeout(this.bound_flush)\<close> callback.\<close>

definition run_timeout :: "'j opstream \<Rightarrow> 'j outcome" where
  "run_timeout st =
     (if timeouts st = 0 then Inr st else flush (st\<lparr>timeouts := timeouts st - 1\<rparr>))"

text \<open>
  \<open>end(something)\<close>.  When the write of \<open>something\<close> fails and the error path has closed
  the connection, \<open>this.stream.end()\<close> is a call on \<open>null\<close>.
\<close>

definition OpStream_end :: "'j opstream \<Rightarrow> op option \<Rightarrow> 'j outcome" where
  "OpStream_end st something =
     (if \<not> stream st then Inl (Error (js ''this op stream is not open''), st)
      else (case (case something of None \<Rightarrow> Inr st | Some x \<Rightarrow> OpStream_write st x) of
              Inl thrown \<Rightarrow> Inl thrown
            | Inr st1 \<Rightarrow> if stream st1 then Inr (OpStream_close st1) else Inl (TypeError, st1)))"

subsection \<open>Handshakes\<close>

text \<open>
  \<open>toLowerCase\<close> on the letters \<open>A\<close> to \<open>Z\<close>.  Its result is only compared with \<open>on\<close>,
  and no character outside these lower-cases to \<open>o\<close> or \<open>n\<close>.
\<close>

definition toLowerCase :: "jstring \<Rightarrow> jstring" where
  "toLowerCase s = map (\<lambda>c. if ch CHR ''A'' \<le> c \<and> c \<le> ch CHR ''Z'' then c + 32 else c) s"

text \<open>\<open>/Swarm(\+.+)?/\<close> in parts, and \<open>RegExp.prototype.test\<close>.\<close>

definition reSwarm :: "regex list" where
  "reSwarm = map Chr (js ''Swarm'') @ [Opt (Seq (Chr (ch CHR ''+'')) (Plus (Chars isDot)))]"

definition test :: "regex list \<Rightarrow> jstring \<Rightarrow> bool" where
  "test rs s = (exec rs s \<noteq> None)"

text \<open>
  The condition under which \<open>sendHandshake\<close> and \<open>onHandshake\<close> go on: the pattern of the
  address is \<open>/#!.\<close>, the regex finds a match in the type and the lower-cased name is
  \<open>on\<close>.  The three tests run in this order and stop at the first that fails, so the
  type and the name are present where they are read.
\<close>

definition is_handshake :: "op \<Rightarrow> bool" where
  "is_handshake x =
     (Spec_pattern (spec x) = (js ''/#!.'')
      \<and> (case sp_type (spec x) of None \<Rightarrow> False | Some t \<Rightarrow> test reSwarm t)
      \<and> (case sp_op (spec x) of None \<Rightarrow> False | Some n \<Rightarrow> toLowerCase n = (js ''on'')))"

definition sendHandshake :: "'j opstream \<Rightarrow> op \<Rightarrow> 'j outcome" where
  "sendHandshake st x =
     (if is_handshake x
      then OpStream_write
             (st\<lparr>db_id := sp_id (spec x), ssn_id := Spec_origin (spec x),
                 stamp := Spec_stamp (spec x)\<rparr>) x
      else Inl (Error (js ''not a handshake''), st))"

text \<open>
  \<open>onHandshake\<close>; \<open>jp\<close> is \<open>JSON.parse\<close>, with \<open>None\<close> where it throws.  An invalid
  handshake goes to the error path, and \<open>onHandshake\<close> returns what \<open>onStreamError\<close>
  returns: normally, when the error has a listener that returns.
\<close>

definition onHandshake :: "(jstring \<Rightarrow> 'j option) \<Rightarrow> 'j opstream \<Rightarrow> op \<Rightarrow> 'j outcome" where
  "onHandshake jp st x =
     (if is_handshake x
      then (let st1 = st\<lparr>peer_db_id := sp_id (spec x), peer_ssn_id := Spec_origin (spec x)\<rparr>
            in if val x = []
               then emit (st1\<lparr>peer_options := None, peer_stamp := Spec_stamp (spec x)\<rparr>) (EvId x)
               else (case jp (val x) of
                       None \<Rightarrow> Inl (SyntaxError, st1)
                     | Some j \<Rightarrow>
                         emit (st1\<lparr>peer_options := Some j, peer_stamp := Spec_stamp (spec x)\<rparr>)
                           (EvId x)))
      else onStreamError st (Error (js ''invalid handshake'')))"

subsection \<open>Inbound data\<close>

text \<open>
  The delivery loop of \<open>onStreamDataReceived\<close>: an op whose author is not the required
  one goes to the error path and ends the loop.
\<close>

fun deliver_ops :: "jstring option \<Rightarrow> 'j opstream \<Rightarrow> op list \<Rightarrow> 'j outcome" where
  "deliver_ops author st [] = Inr st"
| "deliver_ops author st (x # xs) =
     (if author \<noteq> None \<and> Spec_author (spec x) \<noteq> author
      then onStreamError st (Error ((js ''access violation: '') @ Spec_toString (spec x)))
      else deliver_ops author (push st x) xs)"

text \<open>
  The body of the second \<open>try\<close> block of \<open>onStreamDataReceived\<close>, on the parsed ops
  \<open>x # xs\<close>: without a peer stamp the first op is taken off and goes to \<open>onHandshake\<close>;
  then the delivery loop runs.
\<close>

definition receive_ops :: "(jstring \<Rightarrow> 'j option) \<Rightarrow> 'j opstream \<Rightarrow> op \<Rightarrow> op list \<Rightarrow> 'j outcome" where
  "receive_ops jp st x xs =
     (if truthy (peer_stamp st)
      then deliver_ops (or_null (restrictAuthor (options st))) st (x # xs)
      else (case onHandshake jp st x of
              Inl thrown \<Rightarrow> Inl thrown
            | Inr st1 \<Rightarrow> deliver_ops (or_null (restrictAuthor (options st1))) st1 xs))"

text \<open>
  In \<open>onStreamDataReceived\<close>, \<open>data\<close> is the chunk as text (\<open>data.toString()\<close>); an empty
  chunk is a keep-alive.  An exception of the \<open>try\<close> block is caught and goes to
  \<open>onStreamError\<close>; what \<open>onStreamError\<close> throws there leaves \<open>onStreamDataReceived\<close>.
\<close>

definition onStreamDataReceived ::
  "(jstring \<Rightarrow> 'j option) \<Rightarrow> 'j opstream \<Rightarrow> jstring \<Rightarrow> 'j outcome" where
  "onStreamDataReceived jp st data =
     (if \<not> stream st then Inr st
      else if data = [] then Inr st
      else (let st1 = st\<lparr>remainder := remainder st @ data\<rparr>
            in case Op_parse (remainder st1) (peer_stamp st1) (ctx st1) of
                 Inl ex \<Rightarrow> onStreamError st1 (Error (js ''bad op format''))
               | Inr parsed \<Rightarrow>
                   (let st2 = st1\<lparr>remainder := snd parsed\<rparr>
                    in case fst parsed of
                         [] \<Rightarrow> Inr st2
                       | x # xs \<Rightarrow>
                           (case receive_ops jp st2 x xs of
                              Inl thrown \<Rightarrow> onStreamError (snd thrown) (fst thrown)
                            | Inr st3 \<Rightarrow> Inr st3))))"

definition onStreamEnded :: "'j opstream \<Rightarrow> 'j outcome" where
  "onStreamEnded st = emit (st\<lparr>stream := False\<rparr>) EvEnd"

definition onTimer :: "'j opstream \<Rightarrow> 'j outcome" where
  "onTimer st =
     (if keepAlive (options st)
      then (let silentTime = now st - lastSendTime st;
                limit = (case keepAliveInterval (options st) of
                           None \<Rightarrow> 50000 | Some k \<Rightarrow> if k = 0 then 50000 else k)
            in if limit < silentTime then flush st else Inr st)
      else Inr st)"

section \<open>Example values\<close>

definition no_options :: options where
  "no_options = \<lparr>opt_ssn_id = None, opt_db_id = None, opt_stamp = None, keepAlive = False,
     keepAliveInterval = None, restrictAuthor = None\<rparr>"

text \<open>The op \<open>/Model#i!v.n\<close> with value \<open>x\<close>, no source and no patch.\<close>

definition model_op :: "string \<Rightarrow> string \<Rightarrow> string \<Rightarrow> jstring \<Rightarrow> op" where
  "model_op i v n x =
     Op \<lparr>sp_type = Some (js ''Model''), sp_id = Some (js i), sp_version = Some (js v),
         sp_op = Some (js n)\<rparr> x [] None"

section \<open>The parser and chunk boundaries\<close>

text \<open>
  C1 (chunk-boundary invariance) does not hold of \<open>Op.parse\<close>.  The two-line document
  \<open>/Model#obj1!1+u.set<TAB>value1<LF>/Model#obj2!2+u.set<TAB>value2<LF>\<close> parses in one
  call to the ops with values \<open>value1\<close> and \<open>value2\<close>.  Cut inside \<open>value1\<close>, the first
  chunk already yields an op, with the value \<open>val\<close>, and an empty remainder: the value
  part \<open>(.*)\<close> of the regex ends at the end of the input as well as at a line end.  The
  second chunk then yields the second op only; the rest \<open>ue1\<close> of the first line is
  passed over.  So the two calls give the ops \<open>val\<close>, \<open>value2\<close>, not \<open>value1\<close>, \<open>value2\<close>.
\<close>

theorem chunk_split_truncates_value:
  "Op_parse (((js ''/Model#obj1!1+u.set'') @ [TAB] @ (js ''val''))
             @ ((js ''ue1'') @ [LF] @ (js ''/Model#obj2!2+u.set'') @ [TAB] @ (js ''value2'') @ [LF])) None None
     = Inr ([model_op ''obj1'' ''1+u'' ''set'' (js ''value1''),
             model_op ''obj2'' ''2+u'' ''set'' (js ''value2'')], [])
   \<and> Op_parse ((js ''/Model#obj1!1+u.set'') @ [TAB] @ (js ''val'')) None None
     = Inr ([model_op ''obj1'' ''1+u'' ''set'' (js ''val'')], [])
   \<and> Op_parse ([] @ ((js ''ue1'') @ [LF] @ (js ''/Model#obj2!2+u.set'') @ [TAB] @ (js ''value2'') @ [LF]))
        None None
     = Inr ([model_op ''obj2'' ''2+u'' ''set'' (js ''value2'')], [])"
  by code_simp

text \<open>
  C6 (a malformed line is never skipped without an error) does not hold of \<open>Op.parse\<close>.
  The search for the next match starts anywhere in the text, so a malformed line in
  front of a well-formed one is passed over: \<open>garbage<LF>/Model#obj1!1+u.set<TAB>value1<LF>\<close>
  parses to the one op and an empty remainder, with no error.  The same malformed line
  after the well-formed one is rejected with \<open>unparseable input\<close>.
\<close>

theorem malformed_line_skipped:
  "Op_parse ((js ''garbage'') @ [LF] @ (js ''/Model#obj1!1+u.set'') @ [TAB] @ (js ''value1'') @ [LF]) None None
     = Inr ([model_op ''obj1'' ''1+u'' ''set'' (js ''value1'')], [])
   \<and> Op_parse ((js ''/Model#obj1!1+u.set'') @ [TAB] @ (js ''value1'') @ [LF] @ (js ''garbage'') @ [LF]) None None
     = Inl (Error (js ''unparseable input''))"
  by code_simp

section \<open>The connection: handshake, sending, closing\<close>

text \<open>
  On a connection without a peer stamp the first op of a chunk goes to \<open>onHandshake\<close>,
  whatever its name, and only the ops after it go to the delivery loop.
\<close>

lemma first_op_goes_to_onHandshake:
  assumes "stream st" and "data \<noteq> []" and "\<not> truthy (peer_stamp st)"
    and "Op_parse (remainder st @ data) (peer_stamp st) (ctx st) = Inr (x # xs, rem)"
    and "onHandshake jp (st\<lparr>remainder := rem\<rparr>) x = Inr st'"
  shows "onStreamDataReceived jp st data
    = (case deliver_ops (or_null (restrictAuthor (options st'))) st' xs of
         Inl thrown \<Rightarrow> onStreamError (snd thrown) (fst thrown)
       | Inr st3 \<Rightarrow> Inr st3)"
  using assms by (simp add: onStreamDataReceived_def receive_ops_def Let_def)

text \<open>
  C2 (handshake gating) does not hold of \<open>onStreamDataReceived\<close>.  On a fresh connection
  with a listener for errors, the chunk
  \<open>/Model#obj1!1+u.set<TAB>value1<LF>/Model#obj2!2+u.set<TAB>value2<LF>\<close> has a first op
  that is no handshake.  \<open>onHandshake\<close> sends it to the error path, which emits one error
  and closes the connection, and returns normally; the delivery loop then pushes the
  second op to the consumer.
\<close>

theorem ops_delivered_after_invalid_handshake:
  "onStreamDataReceived Some
      ((OpStream_init no_options :: jstring opstream)\<lparr>on_error := Some Returns\<rparr>)
      ((js ''/Model#obj1!1+u.set'') @ [TAB] @ (js ''value1'') @ [LF]
       @ (js ''/Model#obj2!2+u.set'') @ [TAB] @ (js ''value2'') @ [LF])
     = Inr ((OpStream_init no_options)
         \<lparr>on_error := Some Returns, stream := False, ended := 1,
          emitted := [EvError (Error (js ''invalid handshake''))],
          pushed := [model_op ''obj2'' ''2+u'' ''set'' (js ''value2'')]\<rparr>)"
  by code_simp

text \<open>
  \<open>sendHandshake\<close> fails exactly when its test fails; otherwise it records the local
  identity from the op and sends the op.
\<close>

lemma sendHandshake_cases:
  "\<not> is_handshake x \<Longrightarrow> sendHandshake st x = Inl (Error (js ''not a handshake''), st)"
  "is_handshake x \<Longrightarrow>
     sendHandshake st x
       = OpStream__write (st\<lparr>db_id := sp_id (spec x), ssn_id := Spec_origin (spec x),
                              stamp := Spec_stamp (spec x)\<rparr>) x"
  by (simp_all add: sendHandshake_def OpStream_write_def)

text \<open>
  C9 (\<open>sendHandshake\<close> rejects every op that is no handshake) does not hold.  The regex
  \<open>/Swarm(\+.+)?/\<close> is not anchored, so \<open>test\<close> accepts every type that contains
  \<open>Swarm\<close>: the op \<open>/XSwarm#db!0+u~ssn.on\<close>, whose type does not begin with \<open>Swarm\<close>, is
  taken for a handshake, recorded as the local identity and written to the transport.
\<close>

theorem sendHandshake_accepts_XSwarm:
  "sendHandshake (OpStream_init no_options :: jstring opstream)
     (Op \<lparr>sp_type = Some (js ''XSwarm''), sp_id = Some (js ''db''), sp_version = Some (js ''0+u~ssn''),
          sp_op = Some (js ''on'')\<rparr> [] [] None)
   = Inr ((OpStream_init no_options)
       \<lparr>db_id := Some (js ''db''), ssn_id := Some (js ''u~ssn''), stamp := Some (js ''0''),
        written := [(js ''/XSwarm#db!0+u~ssn.on'') @ [TAB]]\<rparr>)"
  by code_simp

text \<open>
  \<open>flush\<close> leaves \<open>flush_timeout\<close> as it is, however it ends, and a send that finds the
  handle set only appends to the queue.
\<close>

lemma flush_keeps_flush_timeout:
  "flush st = Inr st' \<Longrightarrow> flush_timeout st' = flush_timeout st"
  "flush st = Inl (ex, st') \<Longrightarrow> flush_timeout st' = flush_timeout st"
  by (auto simp: flush_def onStreamError_def emit_def OpStream_close_def Let_def
      split: if_splits option.splits listener.splits sum.splits)

lemma write_with_handle_arms_nothing:
  "asyncFlush st \<Longrightarrow> flush_timeout st \<Longrightarrow>
     OpStream__write st x = Inr (st\<lparr>pending_s := pending_s st @ [x]\<rparr>)"
  by (simp add: OpStream__write_def Let_def)

text \<open>
  C8 (send coalescing) does not hold of \<open>_write\<close> and \<open>flush\<close>.  \<open>flush\<close> never resets
  \<open>flush_timeout\<close>, so only the first send of a connection arms a deferred flush.  With
  \<open>asyncFlush\<close> set: a first op is queued and a flush armed; the timer runs and writes
  it; a second op is then queued with no flush armed and none pending, and is not
  written.  The three steps, each with the state it returns:
\<close>

theorem second_burst_never_flushed:
  "OpStream__write ((OpStream_init no_options :: jstring opstream)\<lparr>asyncFlush := True\<rparr>)
       (model_op ''obj1'' ''1+u'' ''set'' (js ''value1''))
     = Inr ((OpStream_init no_options)
         \<lparr>asyncFlush := True, pending_s := [model_op ''obj1'' ''1+u'' ''set'' (js ''value1'')],
          flush_timeout := True, timeouts := 1\<rparr>)
   \<and> run_timeout ((OpStream_init no_options :: jstring opstream)
         \<lparr>asyncFlush := True, pending_s := [model_op ''obj1'' ''1+u'' ''set'' (js ''value1'')],
          flush_timeout := True, timeouts := 1\<rparr>)
     = Inr ((OpStream_init no_options)
         \<lparr>asyncFlush := True, pending_s := [], flush_timeout := True, timeouts := 0,
          written := [(js ''/Model#obj1!1+u.set'') @ [TAB] @ (js ''value1'')]\<rparr>)
   \<and> OpStream__write ((OpStream_init no_options :: jstring opstream)
         \<lparr>asyncFlush := True, pending_s := [], flush_timeout := True, timeouts := 0,
          written := [(js ''/Model#obj1!1+u.set'') @ [TAB] @ (js ''value1'')]\<rparr>)
       (model_op ''obj2'' ''2+u'' ''set'' (js ''value2''))
     = Inr ((OpStream_init no_options)
         \<lparr>asyncFlush := True, pending_s := [model_op ''obj2'' ''2+u'' ''set'' (js ''value2'')],
          flush_timeout := True, timeouts := 0,
          written := [(js ''/Model#obj1!1+u.set'') @ [TAB] @ (js ''value1'')]\<rparr>)"
  by code_simp

text \<open>
  The three ways to close: the end of the transport, an error whose listener returns,
  and \<open>end\<close>.
\<close>

lemma closing_transitions:
  "onStreamEnded st = Inr st' \<Longrightarrow> \<not> stream st'"
  "onStreamEnded st = Inl (ex, st') \<Longrightarrow> \<not> stream st'"
  "onStreamError st e = Inr st' \<Longrightarrow> \<not> stream st'"
  "OpStream_end st y = Inr st' \<Longrightarrow> \<not> stream st'"
  by (auto simp: onStreamEnded_def emit_def onStreamError_def OpStream_end_def OpStream_close_def
      Let_def split: if_splits option.splits listener.splits sum.splits event.splits)




section \<open>The authorization filter\<close>












section \<open>The remainder and the size guard\<close>

lemma rmatch_Star_Chars: "\<exists>xs. rmatch (Star (Chars p)) s = dropWhile p s # xs"
proof (induction s)
  case Nil
  show ?case by (subst rmatch.simps(5)) simp
next
  case (Cons c cs)
  then obtain xs where "rmatch (Star (Chars p)) cs = dropWhile p cs # xs"
    by blast
  then show ?case by (subst rmatch.simps(5)) simp
qed

lemma rmatch_Plus_Chars:
  "rmatch (Plus (Chars p)) s = (case s of [] \<Rightarrow> [] | c # cs \<Rightarrow> if p c then rmatch (Star (Chars p)) cs else [])"
  by (cases s) (simp_all add: Plus_def)

lemma rmatch_seq_single: "rmatch_seq [r] s = map (\<lambda>x. [x]) (rmatch r s)"
  by (simp add: concat_map_singleton)

lemma exec_None_Cons: "exec rs (c # cs) = None \<Longrightarrow> exec rs cs = None"
  by (cases "rmatch_seq rs (c # cs)") simp_all

lemma exec_None_dropWhile: "exec rs s = None \<Longrightarrow> exec rs (dropWhile p s) = None"
proof (induction s)
  case Nil
  then show ?case by simp
next
  case (Cons a s)
  show ?case
  proof (cases "p a")
    case True
    with Cons.IH [OF exec_None_Cons [OF Cons.prems]] show ?thesis
      by simp
  next
    case False
    with Cons.prems show ?thesis
      by simp
  qed
qed

lemma Op_strip_nl_dropWhile: "Op_strip_nl s = dropWhile (\<lambda>c. c = LF) s"
proof (cases s)
  case Nil
  then show ?thesis
    by (simp add: Op_strip_nl_def rmatch_seq_single rmatch_Plus_Chars Chr_def)
next
  case (Cons c cs)
  show ?thesis
  proof (cases "c = LF")
    case True
    obtain xs where "rmatch (Star (Chars (\<lambda>x. x = LF))) cs = dropWhile (\<lambda>x. x = LF) cs # xs"
      using rmatch_Star_Chars by blast
    with True Cons show ?thesis
      by (simp add: Op_strip_nl_def rmatch_seq_single rmatch_Plus_Chars Chr_def)
  next
    case False
    with Cons have here: "exec [Plus (Chr LF)] s = exec [Plus (Chr LF)] cs"
      by (simp add: rmatch_seq_single rmatch_Plus_Chars Chr_def)
    show ?thesis
    proof (cases "exec [Plus (Chr LF)] cs")
      case None
      with here False Cons show ?thesis
        by (simp add: Op_strip_nl_def)
    next
      case (Some m)
      obtain at g where m: "m = (at, g)"
        by (cases m)
      from exec_Some [of "[Plus (Chr LF)]" cs at g] Some m have "length at \<le> length cs"
        by simp
      with here Some m False Cons show ?thesis
        by (simp add: Op_strip_nl_def)
    qed
  qed
qed

lemma Op_parse_loop_rest: "exec reOp (snd (Op_parse_loop s src c)) = None"
proof (induction s src c rule: Op_parse_loop.induct)
  case (1 rem src cx)
  show ?case
  proof (cases "exec reOp rem")
    case None
    then show ?thesis
      by (subst Op_parse_loop.simps) simp
  next
    case (Some m)
    with "1.IH" [OF Some] show ?thesis
      by (subst Op_parse_loop.simps) (simp add: Op_push_def)
  qed
qed

text \<open>
  The text \<open>Op.parse\<close> leaves unresolved, the \<open>rem\<close> of its two checks: what follows
  the last match, less a run of newlines at its start.
\<close>

definition Op_unresolved :: "jstring \<Rightarrow> jstring option \<Rightarrow> spec option \<Rightarrow> jstring" where
  "Op_unresolved str src context = Op_strip_nl (snd (Op_parse_loop str src context))"

lemma Op_unresolved_no_match: "exec reOp (Op_unresolved str src c) = None"
  unfolding Op_unresolved_def Op_strip_nl_dropWhile
  by (rule exec_None_dropWhile) (rule Op_parse_loop_rest)

text \<open>An unresolved text that still holds a newline is rejected.\<close>

lemma unparseable_remainder_rejected:
  "LF \<in> set (Op_unresolved str src c) \<Longrightarrow> Op_parse str src c = Inl (Error (js ''unparseable input''))"
  using Op_unresolved_no_match [of str src c]
  by (simp add: Op_parse_def Op_unresolved_def Let_def)

text \<open>
  C7 as amended: whenever the unresolved text is longer than \<open>2^23\<close> characters,
  \<open>Op.parse\<close> fails, with the error \<open>unparseable input\<close> when that text holds a newline
  and with \<open>large unparseable input\<close> otherwise; and a remainder that \<open>Op.parse\<close> returns
  is never longer than \<open>2^23\<close> characters.
\<close>

theorem oversized_remainder_rejected:
  "(2 ^ 23 < int (length (Op_unresolved str src c)) \<longrightarrow>
      Op_parse str src c
        = Inl (Error (if LF \<in> set (Op_unresolved str src c) then (js ''unparseable input'')
                      else (js ''large unparseable input''))))
   \<and> (\<forall>ops rem. Op_parse str src c = Inr (ops, rem) \<longrightarrow> int (length rem) \<le> 2 ^ 23)"
  using Op_unresolved_no_match [of str src c]
  by (auto simp: Op_parse_def Op_unresolved_def Let_def split: if_splits)

lemma rmatch_rsSpec_no_quant:
  "s = [] \<or> \<not> isQuant (hd s) \<Longrightarrow> rmatch rsSpec s = []"
  by (cases s) (simp_all add: rsSpec_def Plus_def rsQuant_def)

lemma exec_reOp_no_quant: "\<forall>c \<in> set s. \<not> isQuant c \<Longrightarrow> exec reOp s = None"
  by (induction s) (simp_all add: reOp_def rmatch_rsSpec_no_quant)

lemma Op_parse_loop_no_quant:
  "\<forall>c \<in> set s. \<not> isQuant c \<Longrightarrow> Op_parse_loop s src c = ([], s)"
  by (subst Op_parse_loop.simps) (simp add: exec_reOp_no_quant)

lemma Op_unresolved_plain:
  assumes "\<forall>c \<in> set s. \<not> isQuant c \<and> c \<noteq> LF"
  shows "Op_unresolved s src c = s"
proof -
  from assms have "dropWhile (\<lambda>c. c = LF) s = s"
    by (cases s) auto
  with assms show ?thesis
    by (simp add: Op_unresolved_def Op_strip_nl_dropWhile Op_parse_loop_no_quant)
qed

lemma Op_parse_plain:
  assumes "\<forall>c \<in> set s. \<not> isQuant c \<and> c \<noteq> LF"
  shows "Op_parse s src c
    = (if 2 ^ 23 < int (length s) then Inl (Error (js ''large unparseable input'')) else Inr ([], s))"
proof -
  from assms have "LF \<notin> set s"
    by auto
  with Op_unresolved_plain [OF assms, of src c] assms show ?thesis
    by (simp add: Op_parse_def Op_unresolved_def Op_parse_loop_no_quant Let_def)
qed

text \<open>
  C7 names the error \<open>oversized unparseable input\<close>.  A text of \<open>2^23 + 1\<close> letters, with
  no frame in it, is rejected with \<open>large unparseable input\<close>.
\<close>

theorem oversized_message_counterexample:
  "Op_parse (replicate (2 ^ 23 + 1) (ch CHR ''x'')) None None = Inl (Error (js ''large unparseable input''))
   \<and> Op_parse (replicate (2 ^ 23 + 1) (ch CHR ''x'')) None None
       \<noteq> Inl (Error (js ''oversized unparseable input''))"
proof -
  have "\<forall>c \<in> set (replicate (2 ^ 23 + 1) (ch CHR ''x'')). \<not> isQuant c \<and> c \<noteq> LF"
    by (simp add: isQuant_def)
  from Op_parse_plain [OF this, of None None] show ?thesis
    by simp
qed

text \<open>
  Both halves of the size guard at inputs: the oversized text is rejected, and the
  remainder returned for one well-formed line is empty.
\<close>

theorem oversized_remainder_rejected_witness:
  "2 ^ 23 < int (length (Op_unresolved (replicate (2 ^ 23 + 1) (ch CHR ''x'')) None None))
   \<and> Op_parse (replicate (2 ^ 23 + 1) (ch CHR ''x'')) None None = Inl (Error (js ''large unparseable input''))
   \<and> Op_parse ((js ''/Model#obj1!1+u.set'') @ [TAB] @ (js ''value1'') @ [LF]) None None
       = Inr ([model_op ''obj1'' ''1+u'' ''set'' (js ''value1'')], [])
   \<and> int (length ([] :: jstring)) \<le> 2 ^ 23"
proof -
  have plain: "\<forall>c \<in> set (replicate (2 ^ 23 + 1) (ch CHR ''x'')). \<not> isQuant c \<and> c \<noteq> LF"
    by (simp add: isQuant_def)
  have un: "Op_unresolved (replicate (2 ^ 23 + 1) (ch CHR ''x'')) None None
      = replicate (2 ^ 23 + 1) (ch CHR ''x'')"
    by (rule Op_unresolved_plain [OF plain])
  have big: "2 ^ 23 < int (length (Op_unresolved (replicate (2 ^ 23 + 1) (ch CHR ''x'')) None None))"
    unfolding un by simp
  have no_nl: "LF \<notin> set (Op_unresolved (replicate (2 ^ 23 + 1) (ch CHR ''x'')) None None)"
    unfolding un by simp
  have small: "Op_parse ((js ''/Model#obj1!1+u.set'') @ [TAB] @ (js ''value1'') @ [LF]) None None
       = Inr ([model_op ''obj1'' ''1+u'' ''set'' (js ''value1'')], [])"
    by code_simp
  from oversized_remainder_rejected [of "replicate (2 ^ 23 + 1) (ch CHR ''x'')" None None] big no_nl
  have c1: "Op_parse (replicate (2 ^ 23 + 1) (ch CHR ''x'')) None None = Inl (Error (js ''large unparseable input''))"
    by (simp only: if_False simp_thms)
  from oversized_remainder_rejected [of "(js ''/Model#obj1!1+u.set'') @ [TAB] @ (js ''value1'') @ [LF]" None None] small
  have c2: "int (length ([] :: jstring)) \<le> 2 ^ 23"
    by blast
  show ?thesis
    by (intro conjI big c1 small c2)
qed

section \<open>Serialized ops and the parser\<close>

text \<open>
  An address is well formed when it has a component and each component it has is a
  token of the grammar: one or more token characters, with an optional \<open>+\<close> and one
  or more token characters after it.  These are the addresses \<open>Op.parse\<close> can read.
\<close>

definition isToken :: "jstring \<Rightarrow> bool" where
  "isToken t =
     (let a = takeWhile isTok t; r = dropWhile isTok t
      in a \<noteq> [] \<and> (r = [] \<or> (hd r = ch CHR ''+'' \<and> tl r \<noteq> [] \<and> list_all isTok (tl r))))"

definition wf_part :: "jstring option \<Rightarrow> bool" where
  "wf_part t = (case t of None \<Rightarrow> True | Some x \<Rightarrow> isToken x)"

definition wf_spec :: "spec \<Rightarrow> bool" where
  "wf_spec sp =
     (wf_part (sp_type sp) \<and> wf_part (sp_id sp) \<and> wf_part (sp_version sp) \<and> wf_part (sp_op sp)
      \<and> Spec_toString sp \<noteq> [])"

lemma isQuant_not_tok: "isQuant c \<Longrightarrow> \<not> isTok c \<and> c \<noteq> ch CHR ''+''"
  by (auto simp: isQuant_def isTok_def)

lemma plus_not_tok: "\<not> isTok (ch CHR ''+'')" "\<not> isQuant (ch CHR ''+'')"
  by (simp_all add: isTok_def isQuant_def)

lemma TAB_plain: "\<not> isTok TAB" "\<not> isQuant TAB" "TAB \<noteq> ch CHR ''+''" "isWs TAB" "isDot TAB"
  by (simp_all add: isTok_def isQuant_def isWs_def isDot_def)

lemma isTok_isDot: "isTok c \<Longrightarrow> isDot c"
  by (auto simp: isTok_def isDot_def)

lemma isQuant_isDot: "isQuant c \<Longrightarrow> isDot c"
  by (auto simp: isQuant_def isDot_def)

lemma isToken_cases:
  assumes "isToken t"
  obtains "t \<noteq> []" "list_all isTok t"
  | a b where "t = a @ ch CHR ''+'' # b" "a \<noteq> []" "list_all isTok a" "b \<noteq> []" "list_all isTok b"
proof -
  define a where "a = takeWhile isTok t"
  define r where "r = dropWhile isTok t"
  have t: "t = a @ r"
    by (simp add: a_def r_def)
  have a: "list_all isTok a"
    by (simp add: a_def list_all_iff) (meson set_takeWhileD)
  from assms have ne: "a \<noteq> []"
    and r: "r = [] \<or> (hd r = ch CHR ''+'' \<and> tl r \<noteq> [] \<and> list_all isTok (tl r))"
    by (simp_all add: isToken_def a_def r_def Let_def)
  show thesis
  proof (cases "r = []")
    case True
    with t a ne that(1) show ?thesis by simp
  next
    case False
    with r have "r = ch CHR ''+'' # tl r" "tl r \<noteq> []" "list_all isTok (tl r)"
      by (cases r; simp)+
    with t a ne that(2) [of a "tl r"] show ?thesis by simp
  qed
qed


subsection \<open>The first match on a well-formed address\<close>

text \<open>
  What may follow a token, and what may follow an address, for the greedy match to end
  there.  \<open>rsExt\<close> and \<open>rsGroup\<close> name two parts of \<open>rsSpec\<close>; \<open>spec_text\<close> is the text
  of a list of components and \<open>Spec_parts\<close> lists the components of an address.
\<close>

definition after_token :: "jstring \<Rightarrow> bool" where
  "after_token rest = (rest = [] \<or> (\<not> isTok (hd rest) \<and> hd rest \<noteq> ch CHR ''+''))"

definition after_spec :: "jstring \<Rightarrow> bool" where
  "after_spec rest = (rest = [] \<or> (\<not> isTok (hd rest) \<and> hd rest \<noteq> ch CHR ''+'' \<and> \<not> isQuant (hd rest)))"

lemma dropWhile_tok_append:
  "list_all isTok a \<Longrightarrow> rest = [] \<or> \<not> isTok (hd rest) \<Longrightarrow> dropWhile isTok (a @ rest) = rest"
proof (induction a)
  case Nil
  then show ?case by (cases rest) auto
next
  case (Cons c a)
  then show ?case by simp
qed

lemma rmatch_rT:
  assumes "a \<noteq> []" and "list_all isTok a" and "rest = [] \<or> \<not> isTok (hd rest)"
  shows "\<exists>xs. rmatch rT (a @ rest) = rest # xs"
proof -
  from assms(1) obtain c cs where a: "a = c # cs"
    by (cases a) auto
  obtain xs where "rmatch (Star (Chars isTok)) (cs @ rest) = dropWhile isTok (cs @ rest) # xs"
    using rmatch_Star_Chars by blast
  with a assms(2,3) show ?thesis
    by (simp add: rT_def rmatch_Plus_Chars dropWhile_tok_append)
qed

definition rsExt :: regex where
  "rsExt = Opt (Seq (Chr (ch CHR ''+'')) rT)"

lemma rmatch_rsExt_none: "rest = [] \<or> hd rest \<noteq> ch CHR ''+'' \<Longrightarrow> rmatch rsExt rest = [rest]"
  by (cases rest) (auto simp: rsExt_def Chr_def)

lemma rmatch_rsExt_some:
  assumes "b \<noteq> []" and "list_all isTok b" and "rest = [] \<or> \<not> isTok (hd rest)"
  shows "\<exists>xs. rmatch rsExt (ch CHR ''+'' # b @ rest) = rest # xs"
proof -
  from rmatch_rT [OF assms] obtain xs where "rmatch rT (b @ rest) = rest # xs"
    by blast
  then show ?thesis
    by (simp add: rsExt_def Chr_def)
qed

lemma rmatch_token:
  assumes "isToken t" and "after_token rest"
  shows "\<exists>xs. rmatch (Seq rT rsExt) (t @ rest) = rest # xs"
  using assms(1)
proof (cases rule: isToken_cases)
  case 1
  from assms(2) have r: "rest = [] \<or> \<not> isTok (hd rest)" "rest = [] \<or> hd rest \<noteq> ch CHR ''+''"
    by (auto simp: after_token_def)
  from rmatch_rT [OF 1 r(1)] obtain xs where "rmatch rT (t @ rest) = rest # xs"
    by blast
  with rmatch_rsExt_none [OF r(2)] show ?thesis
    by simp
next
  case (2 a b)
  from assms(2) have r: "rest = [] \<or> \<not> isTok (hd rest)"
    by (auto simp: after_token_def)
  have "\<exists>xs. rmatch rT (a @ (ch CHR ''+'' # b @ rest)) = (ch CHR ''+'' # b @ rest) # xs"
    by (rule rmatch_rT [OF 2(2,3)]) (simp add: isTok_def)
  then obtain xs where x: "rmatch rT (t @ rest) = (ch CHR ''+'' # b @ rest) # xs"
    using 2(1) by auto
  from rmatch_rsExt_some [OF 2(4,5) r] obtain ys where "rmatch rsExt (ch CHR ''+'' # b @ rest) = rest # ys"
    by blast
  with x show ?thesis
    by simp
qed

definition rsGroup :: regex where
  "rsGroup = Seq rsQuant (Seq rT rsExt)"

lemma rsSpec_rsGroup: "rsSpec = Seq rsGroup (Star rsGroup)"
  by (simp add: rsSpec_def rsGroup_def rsExt_def Plus_def)

lemma rmatch_rsGroup:
  assumes "isQuant q" and "isToken t" and "after_token rest"
  shows "\<exists>xs. rmatch rsGroup (q # t @ rest) = rest # xs"
  using rmatch_token [OF assms(2,3)] assms(1)
  by (auto simp: rsGroup_def rsQuant_def)

lemma rmatch_rsGroup_none: "rest = [] \<or> \<not> isQuant (hd rest) \<Longrightarrow> rmatch rsGroup rest = []"
  by (cases rest) (auto simp: rsGroup_def rsQuant_def)

definition spec_text :: "(jchar \<times> jstring) list \<Rightarrow> jstring" where
  "spec_text ps = concat (map (\<lambda>p. fst p # snd p) ps)"

definition wf_parts :: "(jchar \<times> jstring) list \<Rightarrow> bool" where
  "wf_parts ps = list_all (\<lambda>p. isQuant (fst p) \<and> isToken (snd p)) ps"

lemma after_token_text:
  assumes "wf_parts ps" and "after_spec rest"
  shows "after_token (spec_text ps @ rest)"
proof (cases ps)
  case Nil
  with assms(2) show ?thesis
    by (auto simp: spec_text_def after_token_def after_spec_def)
next
  case (Cons p ps')
  with assms(1) have "isQuant (fst p)"
    by (simp add: wf_parts_def)
  with Cons isQuant_not_tok [of "fst p"] show ?thesis
    by (simp add: spec_text_def after_token_def)
qed

lemma rmatch_Star_rsGroup:
  assumes "wf_parts ps" and "after_spec rest"
  shows "\<exists>xs. rmatch (Star rsGroup) (spec_text ps @ rest) = rest # xs"
  using assms(1)
proof (induction ps)
  case Nil
  from assms(2) have "rmatch rsGroup rest = []"
    by (intro rmatch_rsGroup_none) (auto simp: after_spec_def)
  then show ?case
    by (subst rmatch.simps(5)) (simp add: spec_text_def)
next
  case (Cons p ps)
  then have p: "isQuant (fst p)" "isToken (snd p)" and ps: "wf_parts ps"
    by (simp_all add: wf_parts_def)
  let ?rest = "spec_text ps @ rest"
  have eq: "spec_text (p # ps) @ rest = fst p # snd p @ ?rest"
    by (simp add: spec_text_def)
  from rmatch_rsGroup [OF p after_token_text [OF ps assms(2)]]
  obtain xs where g: "rmatch rsGroup (fst p # snd p @ ?rest) = ?rest # xs"
    by blast
  from Cons.IH [OF ps] obtain ys where s: "rmatch (Star rsGroup) ?rest = rest # ys"
    by blast
  show ?case
    unfolding eq by (subst rmatch.simps(5)) (simp add: g s)
qed

lemma rmatch_rsSpec_text:
  assumes "ps \<noteq> []" and "wf_parts ps" and "after_spec rest"
  shows "\<exists>xs. rmatch rsSpec (spec_text ps @ rest) = rest # xs"
proof -
  from assms(1) obtain p ps' where ps: "ps = p # ps'"
    by (cases ps) auto
  with assms(2) have p: "isQuant (fst p)" "isToken (snd p)" and ps': "wf_parts ps'"
    by (simp_all add: wf_parts_def)
  let ?rest = "spec_text ps' @ rest"
  have eq: "spec_text ps @ rest = fst p # snd p @ ?rest"
    by (simp add: spec_text_def ps)
  from rmatch_rsGroup [OF p after_token_text [OF ps' assms(3)]]
  obtain xs where g: "rmatch rsGroup (fst p # snd p @ ?rest) = ?rest # xs"
    by blast
  from rmatch_Star_rsGroup [OF ps' assms(3)] obtain ys where s: "rmatch (Star rsGroup) ?rest = rest # ys"
    by blast
  show ?thesis
    unfolding eq rsSpec_rsGroup by (simp add: g s)
qed


definition Spec_parts :: "spec \<Rightarrow> (jchar \<times> jstring) list" where
  "Spec_parts sp =
     (case sp_type sp of None \<Rightarrow> [] | Some t \<Rightarrow> [(ch CHR ''/'', t)])
     @ (case sp_id sp of None \<Rightarrow> [] | Some t \<Rightarrow> [(ch CHR ''#'', t)])
     @ (case sp_version sp of None \<Rightarrow> [] | Some t \<Rightarrow> [(ch CHR ''!'', t)])
     @ (case sp_op sp of None \<Rightarrow> [] | Some t \<Rightarrow> [(ch CHR ''.'', t)])"

lemma Spec_toString_parts: "Spec_toString sp = spec_text (Spec_parts sp)"
  by (simp add: Spec_toString_def Spec_parts_def Spec_part_def spec_text_def split: option.splits)

lemma wf_spec_parts:
  assumes "wf_spec sp"
  shows "wf_parts (Spec_parts sp)" and "Spec_parts sp \<noteq> []"
proof -
  from assms show "wf_parts (Spec_parts sp)"
    by (auto simp: wf_spec_def wf_part_def wf_parts_def Spec_parts_def isQuant_def
        split: option.splits)
  from assms have "spec_text (Spec_parts sp) \<noteq> []"
    by (simp add: wf_spec_def Spec_toString_parts)
  then show "Spec_parts sp \<noteq> []"
    by (auto simp: spec_text_def)
qed

lemma rmatch_seq_Cons:
  "rmatch r s = x # xs \<Longrightarrow> rmatch_seq rs x = g # gs \<Longrightarrow> \<exists>zs. rmatch_seq (r # rs) s = (x # g) # zs"
  by simp

lemma rmatch_Star_rsPatchOp_Nil: "rmatch (Star rsPatchOp) [] = [[]]"
  by (subst rmatch.simps(5)) (simp add: rsPatchOp_def Chr_def)

lemma dropWhile_all: "list_all p s \<Longrightarrow> dropWhile p s = []"
  by (induction s) auto

lemma list_all_dropWhile: "list_all p s \<Longrightarrow> list_all p (dropWhile q s)"
  by (induction s) auto

lemma rmatch_seq_reOp_line:
  assumes "ps \<noteq> []" and "wf_parts ps" and "list_all isDot V"
  shows "\<exists>zs. rmatch_seq reOp (spec_text ps @ TAB # V) = [TAB # V, dropWhile isWs V, [], []] # zs"
proof -
  have "after_spec (TAB # V)"
    by (simp add: after_spec_def TAB_plain)
  from rmatch_rsSpec_text [OF assms(1,2) this]
  obtain xs1 where s1: "rmatch rsSpec (spec_text ps @ TAB # V) = (TAB # V) # xs1"
    by blast
  obtain xs2 where "rmatch (Star (Chars isWs)) V = dropWhile isWs V # xs2"
    using rmatch_Star_Chars by blast
  then have s2: "rmatch (Plus (Chars isWs)) (TAB # V) = dropWhile isWs V # xs2"
    by (simp add: rmatch_Plus_Chars TAB_plain)
  obtain xs3 where "rmatch (Star (Chars isDot)) (dropWhile isWs V)
      = dropWhile isDot (dropWhile isWs V) # xs3"
    using rmatch_Star_Chars by blast
  with assms(3) have s3: "rmatch (Star (Chars isDot)) (dropWhile isWs V) = [] # xs3"
    by (simp add: dropWhile_all list_all_dropWhile)
  have g4: "rmatch_seq [Star rsPatchOp] [] = [[[]]]"
    by (simp add: rmatch_Star_rsPatchOp_Nil)
  from rmatch_seq_Cons [OF s3 g4]
  obtain z3 where g3: "rmatch_seq [Star (Chars isDot), Star rsPatchOp] (dropWhile isWs V)
      = [[], []] # z3"
    by blast
  from rmatch_seq_Cons [OF s2 g3]
  obtain z2 where g2: "rmatch_seq [Plus (Chars isWs), Star (Chars isDot), Star rsPatchOp] (TAB # V)
      = [dropWhile isWs V, [], []] # z2"
    by blast
  from rmatch_seq_Cons [OF s1 g2] show ?thesis
    by (simp only: reOp_def)
qed

lemma upto_append: "upto (a @ b) b = a"
  by (simp add: upto_def)

lemma upto_Nil: "upto a [] = a"
  by (simp add: upto_def)

lemma Op_parse_loop_Nil: "Op_parse_loop [] src c = ([], [])"
  by (rule Op_parse_loop_no_quant) simp

lemma Op_parse_line:
  assumes "ps \<noteq> []" and "wf_parts ps" and "list_all isDot V"
  shows "Op_parse (spec_text ps @ TAB # V) src c
    = Inr ([Op_new (Spec_new (spec_text ps) None c) (Some (dropWhile isWs V)) src None], [])"
proof -
  let ?line = "spec_text ps @ TAB # V"
  let ?g = "[TAB # V, dropWhile isWs V, [], []]"
  from rmatch_seq_reOp_line [OF assms] obtain zs where "rmatch_seq reOp ?line = ?g # zs"
    by blast
  moreover from assms(1) have "?line \<noteq> []"
    by simp
  ultimately have ex: "exec reOp ?line = Some (?line, ?g)"
    by (cases ?line) simp_all
  have m: "Op_of_match (?line, ?g) src c
      = Op_new (Spec_new (spec_text ps) None c) (Some (dropWhile isWs V)) src None"
    by (simp add: Op_of_match_def upto_append upto_Nil Let_def)
  have "Op_parse_loop ?line src c
      = ([Op_new (Spec_new (spec_text ps) None c) (Some (dropWhile isWs V)) src None], [])"
    by (subst Op_parse_loop.simps) (simp add: ex m Op_parse_loop_Nil Op_push_def)
  then show ?thesis
    by (simp add: Op_parse_def Op_strip_nl_dropWhile Let_def)
qed

lemma isToken_no_quant:
  assumes "isToken t"
  shows "list_all (\<lambda>c. \<not> isQuant c) t"
  using assms
proof (cases rule: isToken_cases)
  case 1
  then show ?thesis
    by (auto simp: list_all_iff dest: isQuant_not_tok)
next
  case (2 a b)
  then show ?thesis
    by (auto simp: list_all_iff plus_not_tok dest: isQuant_not_tok)
qed

lemma takeWhile_dropWhile_prefix:
  assumes "list_all p t" and "rest = [] \<or> \<not> p (hd rest)"
  shows "takeWhile p (t @ rest) = t" and "dropWhile p (t @ rest) = rest"
  using assms by (induction t) (auto simp: neq_Nil_conv; cases rest; simp)+

lemma Spec_split_text: "wf_parts ps \<Longrightarrow> Spec_split (spec_text ps) = ps"
proof (induction ps)
  case Nil
  then show ?case by (simp add: spec_text_def)
next
  case (Cons p ps)
  then have p: "isQuant (fst p)" "isToken (snd p)" and ps: "wf_parts ps"
    by (simp_all add: wf_parts_def)
  have rest: "spec_text ps = [] \<or> \<not> \<not> isQuant (hd (spec_text ps))"
  proof (cases ps)
    case Nil
    then show ?thesis by (simp add: spec_text_def)
  next
    case (Cons p' ps')
    with ps show ?thesis by (simp add: spec_text_def wf_parts_def)
  qed
  have eq: "spec_text (p # ps) = fst p # snd p @ spec_text ps"
    by (simp add: spec_text_def)
  from takeWhile_dropWhile_prefix [OF isToken_no_quant [OF p(2)] rest] Cons.IH [OF ps]
  show ?case
    unfolding eq by simp
qed

lemma Spec_put_parts: "foldl Spec_put Spec_empty (Spec_parts sp) = sp"
  by (cases sp) (simp add: Spec_parts_def Spec_put_def Spec_empty_def split: option.splits)

lemma Spec_new_toString: "wf_spec sp \<Longrightarrow> Spec_new (Spec_toString sp) None None = sp"
  by (simp add: Spec_new_def Spec_fill_def Spec_toString_parts Spec_split_text wf_spec_parts
      Spec_put_parts)

text \<open>
  C3 as amended: for every op with a well-formed address, no patch and a value that
  holds no line terminator (\<open>LF\<close>, \<open>CR\<close>, U+2028, U+2029) and does not begin with a blank
  or a tab, parsing its serialized text yields exactly that one op (same address
  components, same value) and an empty remainder.  The value may be empty.
\<close>

theorem parse_toString_roundtrip:
  assumes "wf_spec sp" and "list_all isDot v" and "dropWhile isWs v = v"
  shows "Op_parse (Op_toString (Op sp v s None) None) src None
    = Inr ([Op sp v (case src of None \<Rightarrow> [] | Some x \<Rightarrow> x) None], [])"
proof -
  have "Op_toString (Op sp v s None) None = spec_text (Spec_parts sp) @ TAB # v"
    by (simp add: Op_toString_def Spec_toString_parts)
  with Op_parse_line [OF wf_spec_parts(2,1) [OF assms(1)] assms(2), of src None]
    Spec_new_toString [OF assms(1)] assms(3)
  show ?thesis
    by (simp add: Spec_toString_parts Op_new_def)
qed

text \<open>
  C3 does not hold for every non-empty value.  The value is serialized as it is, and
  the value part \<open>(.*)\<close> of the regex ends at a line terminator: the values \<open>a<LF>b\<close>,
  \<open>a<CR>b\<close>, \<open>a<U+2028>b\<close> and \<open>a<U+2029>b\<close> all come back as \<open>a\<close>, with what follows
  left in the remainder (less the \<open>LF\<close>).  The blanks and tabs between address and value
  are skipped, so the values \<open><SPACE>a\<close> and \<open><TAB>a\<close> come back as \<open>a\<close>.  An op with an
  empty address is serialized as \<open><TAB>value1\<close>, which holds no op at all.
\<close>

theorem roundtrip_counterexamples:
  "Op_parse (Op_toString (model_op ''obj1'' ''1+u'' ''set'' ((js ''a'') @ [LF] @ (js ''b''))) None) None None
     = Inr ([model_op ''obj1'' ''1+u'' ''set'' (js ''a'')], (js ''b''))
   \<and> Op_parse (Op_toString (model_op ''obj1'' ''1+u'' ''set'' ((js ''a'') @ [CR] @ (js ''b''))) None) None None
     = Inr ([model_op ''obj1'' ''1+u'' ''set'' (js ''a'')], [CR] @ (js ''b''))
   \<and> Op_parse (Op_toString (model_op ''obj1'' ''1+u'' ''set'' ((js ''a'') @ [LS] @ (js ''b''))) None) None None
     = Inr ([model_op ''obj1'' ''1+u'' ''set'' (js ''a'')], [LS] @ (js ''b''))
   \<and> Op_parse (Op_toString (model_op ''obj1'' ''1+u'' ''set'' ((js ''a'') @ [PS] @ (js ''b''))) None) None None
     = Inr ([model_op ''obj1'' ''1+u'' ''set'' (js ''a'')], [PS] @ (js ''b''))
   \<and> Op_parse (Op_toString (model_op ''obj1'' ''1+u'' ''set'' (js '' a'')) None) None None
     = Inr ([model_op ''obj1'' ''1+u'' ''set'' (js ''a'')], [])
   \<and> Op_parse (Op_toString (model_op ''obj1'' ''1+u'' ''set'' ([TAB] @ (js ''a''))) None) None None
     = Inr ([model_op ''obj1'' ''1+u'' ''set'' (js ''a'')], [])
   \<and> Op_parse (Op_toString (Op Spec_empty (js ''value1'') [] None) None) None None
     = Inr ([], [TAB] @ (js ''value1''))"
  by code_simp

text \<open>The round trip of \<open>/Model#obj1!1+u.set\<close> with the value \<open>value1\<close>.\<close>

theorem parse_toString_roundtrip_witness:
  "wf_spec \<lparr>sp_type = Some (js ''Model''), sp_id = Some (js ''obj1''), sp_version = Some (js ''1+u''),
            sp_op = Some (js ''set'')\<rparr>
   \<and> list_all isDot (js ''value1'') \<and> dropWhile isWs (js ''value1'') = (js ''value1'')
   \<and> Op_parse (Op_toString (model_op ''obj1'' ''1+u'' ''set'' (js ''value1'')) None) None None
       = Inr ([model_op ''obj1'' ''1+u'' ''set'' (js ''value1'')], [])"
proof -
  let ?sp = "\<lparr>sp_type = Some (js ''Model''), sp_id = Some (js ''obj1''), sp_version = Some (js ''1+u''),
            sp_op = Some (js ''set'')\<rparr>"
  have h1: "wf_spec ?sp"
    by code_simp
  have h2: "list_all isDot (js ''value1'')" and h3: "dropWhile isWs (js ''value1'') = (js ''value1'')"
    by code_simp+
  from parse_toString_roundtrip [OF h1 h2 h3, of "[]" None]
  have c: "Op_parse (Op_toString (model_op ''obj1'' ''1+u'' ''set'' (js ''value1'')) None) None None
       = Inr ([model_op ''obj1'' ''1+u'' ''set'' (js ''value1'')], [])"
    by (simp add: model_op_def)
  show ?thesis
    by (intro conjI h1 h2 h3 c)
qed

subsection \<open>A flushed batch\<close>

text \<open>
  An op that is serialized as one line the parser can read: a well-formed address, a
  value without line terminators, no patch.
\<close>

definition plain_op :: "op \<Rightarrow> bool" where
  "plain_op x = (wf_spec (spec x) \<and> list_all isDot (val x) \<and> patch x = None)"

lemma isToken_isDot:
  assumes "isToken t"
  shows "list_all isDot t"
  using assms
proof (cases rule: isToken_cases)
  case 1
  then show ?thesis
    by (auto simp: list_all_iff dest: isTok_isDot)
next
  case (2 a b)
  have "isDot (ch CHR ''+'')"
    by (simp add: isDot_def)
  with 2 show ?thesis
    by (auto simp: list_all_iff dest: isTok_isDot)
qed

lemma spec_text_isDot: "wf_parts ps \<Longrightarrow> list_all isDot (spec_text ps)"
  by (induction ps) (auto simp: spec_text_def wf_parts_def isQuant_isDot isToken_isDot)

lemma Op_toString_plain:
  "plain_op x \<Longrightarrow> Op_toString x None = spec_text (Spec_parts (spec x)) @ TAB # val x"
  by (simp add: plain_op_def Op_toString_def Spec_toString_parts)

lemma parcel_isDot:
  "list_all plain_op xs \<Longrightarrow> list_all isDot (concat (map (\<lambda>x. Op_toString x None) xs))"
proof (induction xs)
  case Nil
  then show ?case by simp
next
  case (Cons x xs)
  then have x: "plain_op x" and xs: "list_all plain_op xs"
    by simp_all
  from x have "list_all isDot (Op_toString x None)"
    by (simp add: Op_toString_plain spec_text_isDot wf_spec_parts TAB_plain plain_op_def)
  with Cons.IH [OF xs] show ?case
    by simp
qed

text \<open>
  A flush of an open connection whose transport accepts the write: the queue, whatever
  it holds, is written as one text and emptied.
\<close>

lemma flush_writes_queue:
  assumes "stream st" and "write_throws st = None"
  shows "flush st
    = Inr (st\<lparr>pending_s := [],
             written := written st @ [concat (map (\<lambda>x. Op_toString x None) (pending_s st))],
             lastSendTime := now st\<rparr>)"
  using assms by (simp add: flush_def Let_def)

text \<open>
  The text of two or more plain ops is read as one op, whose value runs on through the
  serialized forms of all the ops after the first.
\<close>

lemma plain_batch_parse:
  assumes "list_all plain_op (x # y # ys)"
  shows "Op_parse (concat (map (\<lambda>x. Op_toString x None) (x # y # ys))) src None
        = Inr ([Op (spec x)
                  (dropWhile isWs (val x @ concat (map (\<lambda>x. Op_toString x None) (y # ys))))
                  (case src of None \<Rightarrow> [] | Some s \<Rightarrow> s) None], [])"
proof -
  from assms have x: "plain_op x" and rest: "list_all plain_op (y # ys)"
    by simp_all
  let ?tail = "concat (map (\<lambda>x. Op_toString x None) (y # ys))"
  have parcel: "concat (map (\<lambda>x. Op_toString x None) (x # y # ys))
      = spec_text (Spec_parts (spec x)) @ TAB # (val x @ ?tail)"
    using Op_toString_plain [OF x] by simp
  from x parcel_isDot [OF rest] have V: "list_all isDot (val x @ ?tail)"
    by (simp add: plain_op_def)
  from x have wf: "wf_spec (spec x)"
    by (simp add: plain_op_def)
  from Op_parse_line [OF wf_spec_parts(2,1) [OF wf] V, of src None] Spec_new_toString [OF wf]
  show ?thesis
    unfolding parcel by (simp add: Spec_toString_parts Op_new_def)
qed

subsection \<open>Batches with patch lines\<close>

text \<open>
  The text of a batch is a first line, \<open>address<TAB>text\<close>, followed by lines
  \<open><LF><TAB>address<TAB>text\<close>: \<open>line_text\<close> and \<open>patch_text\<close>.  \<open>Op_lines\<close> are the patch
  entries \<open>toString\<close> writes for an op, and \<open>serial_op\<close> says that an op is written in
  lines the parser can read: well-formed addresses, for the op and for what
  \<open>toShortString\<close> writes of each patch entry, and values without line terminators.
\<close>

lemma rmatch_Seq_first:
  "rmatch a s = x # xs \<Longrightarrow> rmatch b x = y # ys \<Longrightarrow> \<exists>zs. rmatch (Seq a b) s = y # zs"
  by simp

lemma dropWhile_append_stop:
  "rest = [] \<or> \<not> p (hd rest) \<Longrightarrow> dropWhile p (V @ rest) = dropWhile p V @ rest"
  by (induction V) (auto simp: neq_Nil_conv; cases rest; simp)+

definition line_text :: "(jchar \<times> jstring) list \<times> jstring \<Rightarrow> jstring" where
  "line_text l = spec_text (fst l) @ TAB # snd l"

definition wf_line :: "(jchar \<times> jstring) list \<times> jstring \<Rightarrow> bool" where
  "wf_line l = (fst l \<noteq> [] \<and> wf_parts (fst l) \<and> list_all isDot (snd l))"

definition patch_text :: "((jchar \<times> jstring) list \<times> jstring) list \<Rightarrow> jstring" where
  "patch_text ls = concat (map (\<lambda>l. LF # TAB # line_text l) ls)"

lemma patch_text_start: "patch_text ls = [] \<or> hd (patch_text ls) = LF"
  by (cases ls) (simp_all add: patch_text_def)

lemma isQuant_not_ws: "isQuant c \<Longrightarrow> \<not> isWs c"
  by (auto simp: isQuant_def isWs_def)

lemma spec_text_hd: "ps \<noteq> [] \<Longrightarrow> wf_parts ps \<Longrightarrow> spec_text ps @ r \<noteq> [] \<and> isQuant (hd (spec_text ps @ r))"
  by (cases ps) (simp_all add: spec_text_def wf_parts_def)

lemma LF_plain: "\<not> isWs LF" "\<not> isDot LF"
  by (simp_all add: isWs_def isDot_def)

lemma rmatch_value:
  assumes "list_all isDot V" and "rest = [] \<or> hd rest = LF"
  shows "\<exists>xs. rmatch (Plus (Chars isWs)) (TAB # V @ rest) = (dropWhile isWs V @ rest) # xs"
    and "\<exists>xs. rmatch (Star (Chars isDot)) (dropWhile isWs V @ rest) = rest # xs"
proof -
  from assms(2) have ws: "rest = [] \<or> \<not> isWs (hd rest)" and dot: "rest = [] \<or> \<not> isDot (hd rest)"
    by (auto simp: LF_plain)
  obtain xs where "rmatch (Star (Chars isWs)) (V @ rest) = dropWhile isWs (V @ rest) # xs"
    using rmatch_Star_Chars by blast
  then show "\<exists>xs. rmatch (Plus (Chars isWs)) (TAB # V @ rest) = (dropWhile isWs V @ rest) # xs"
    by (simp add: rmatch_Plus_Chars TAB_plain dropWhile_append_stop [of rest isWs, OF ws])
  obtain ys where "rmatch (Star (Chars isDot)) (dropWhile isWs V @ rest)
      = dropWhile isDot (dropWhile isWs V @ rest) # ys"
    using rmatch_Star_Chars by blast
  with assms(1) show "\<exists>xs. rmatch (Star (Chars isDot)) (dropWhile isWs V @ rest) = rest # xs"
    by (simp add: dropWhile_append_stop [of rest isDot, OF dot] dropWhile_all list_all_dropWhile)
qed

lemma rmatch_rsPatchOp_line:
  assumes "wf_line l" and "rest = [] \<or> hd rest = LF"
  shows "\<exists>xs. rmatch rsPatchOp (LF # TAB # line_text l @ rest) = rest # xs"
proof -
  from assms(1) have ps: "fst l \<noteq> []" "wf_parts (fst l)" and V: "list_all isDot (snd l)"
    by (simp_all add: wf_line_def)
  let ?V = "snd l"
  let ?s2 = "spec_text (fst l) @ TAB # ?V @ rest"
  have m1: "rmatch (Chr LF) (LF # TAB # ?s2) = [TAB # ?s2]"
    by (simp add: Chr_def)
  obtain xs where "rmatch (Star (Chars isWs)) ?s2 = dropWhile isWs ?s2 # xs"
    using rmatch_Star_Chars by blast
  moreover from spec_text_hd [OF ps, of "TAB # ?V @ rest"] have "dropWhile isWs ?s2 = ?s2"
    by (cases ?s2) (auto dest: isQuant_not_ws)
  ultimately have m2: "rmatch (Plus (Chars isWs)) (TAB # ?s2) = ?s2 # xs"
    by (simp add: rmatch_Plus_Chars TAB_plain)
  have "after_spec (TAB # ?V @ rest)"
    by (simp add: after_spec_def TAB_plain)
  from rmatch_rsSpec_text [OF ps this]
  obtain xs3 where m3: "rmatch rsSpec ?s2 = (TAB # ?V @ rest) # xs3"
    by blast
  from rmatch_value [OF V assms(2)]
  obtain xs4 xs5 where m4: "rmatch (Plus (Chars isWs)) (TAB # ?V @ rest) = (dropWhile isWs ?V @ rest) # xs4"
    and m5: "rmatch (Star (Chars isDot)) (dropWhile isWs ?V @ rest) = rest # xs5"
    by blast
  from rmatch_Seq_first [OF m4 m5]
  obtain z4 where "rmatch (Seq (Plus (Chars isWs)) (Star (Chars isDot))) (TAB # ?V @ rest) = rest # z4"
    by blast
  from rmatch_Seq_first [OF m3 this]
  obtain z3 where "rmatch (Seq rsSpec (Seq (Plus (Chars isWs)) (Star (Chars isDot)))) ?s2 = rest # z3"
    by blast
  from rmatch_Seq_first [OF m2 this]
  obtain z2 where "rmatch (Seq (Plus (Chars isWs)) (Seq rsSpec (Seq (Plus (Chars isWs)) (Star (Chars isDot)))))
      (TAB # ?s2) = rest # z2"
    by blast
  from rmatch_Seq_first [OF m1 this] show ?thesis
    by (simp add: rsPatchOp_def line_text_def)
qed

lemma rmatch_Star_rsPatchOp_lines:
  "list_all wf_line ls \<Longrightarrow> \<exists>xs. rmatch (Star rsPatchOp) (patch_text ls) = [] # xs"
proof (induction ls)
  case Nil
  then show ?case
    by (simp add: patch_text_def rmatch_Star_rsPatchOp_Nil)
next
  case (Cons l ls)
  then have l: "wf_line l" and ls: "list_all wf_line ls"
    by simp_all
  have eq: "patch_text (l # ls) = LF # TAB # line_text l @ patch_text ls"
    by (simp add: patch_text_def)
  from rmatch_rsPatchOp_line [OF l patch_text_start [of ls]]
  obtain xs where m: "rmatch rsPatchOp (LF # TAB # line_text l @ patch_text ls) = patch_text ls # xs"
    by blast
  from Cons.IH [OF ls] obtain ys where s: "rmatch (Star rsPatchOp) (patch_text ls) = [] # ys"
    by blast
  show ?case
    unfolding eq by (subst rmatch.simps(5)) (simp add: m s)
qed

lemma rmatch_seq_reOp_frame:
  assumes "wf_line l" and "list_all wf_line ls"
  shows "\<exists>zs. rmatch_seq reOp (line_text l @ patch_text ls)
    = [TAB # snd l @ patch_text ls, dropWhile isWs (snd l) @ patch_text ls, patch_text ls, []] # zs"
proof -
  from assms(1) have ps: "fst l \<noteq> []" "wf_parts (fst l)" and V: "list_all isDot (snd l)"
    by (simp_all add: wf_line_def)
  let ?rest = "patch_text ls"
  have "after_spec (TAB # snd l @ ?rest)"
    by (simp add: after_spec_def TAB_plain)
  from rmatch_rsSpec_text [OF ps this]
  obtain xs1 where s1: "rmatch rsSpec (spec_text (fst l) @ TAB # snd l @ ?rest) = (TAB # snd l @ ?rest) # xs1"
    by blast
  from rmatch_value [OF V patch_text_start [of ls]]
  obtain xs2 xs3 where s2: "rmatch (Plus (Chars isWs)) (TAB # snd l @ ?rest)
      = (dropWhile isWs (snd l) @ ?rest) # xs2"
    and s3: "rmatch (Star (Chars isDot)) (dropWhile isWs (snd l) @ ?rest) = ?rest # xs3"
    by blast
  from rmatch_Star_rsPatchOp_lines [OF assms(2)]
  obtain xs4 where "rmatch (Star rsPatchOp) ?rest = [] # xs4"
    by blast
  then obtain z4 where g4: "rmatch_seq [Star rsPatchOp] ?rest = [[]] # z4"
    by simp
  from rmatch_seq_Cons [OF s3 g4]
  obtain z3 where g3: "rmatch_seq [Star (Chars isDot), Star rsPatchOp] (dropWhile isWs (snd l) @ ?rest)
      = [?rest, []] # z3"
    by blast
  from rmatch_seq_Cons [OF s2 g3]
  obtain z2 where g2: "rmatch_seq [Plus (Chars isWs), Star (Chars isDot), Star rsPatchOp]
      (TAB # snd l @ ?rest) = [dropWhile isWs (snd l) @ ?rest, ?rest, []] # z2"
    by blast
  from rmatch_seq_Cons [OF s1 g2] show ?thesis
    by (simp add: reOp_def line_text_def)
qed

lemma Op_parse_frame:
  assumes "wf_line l" and "list_all wf_line ls"
  shows "\<exists>p. Op_parse (line_text l @ patch_text ls) src c
    = Inr ([Op_new (Spec_new (spec_text (fst l)) None c) (Some (dropWhile isWs (snd l))) src p], [])"
proof -
  let ?F = "line_text l @ patch_text ls"
  let ?g = "[TAB # snd l @ patch_text ls, dropWhile isWs (snd l) @ patch_text ls, patch_text ls, []]"
  from rmatch_seq_reOp_frame [OF assms] obtain zs where "rmatch_seq reOp ?F = ?g # zs"
    by blast
  moreover have "?F \<noteq> []"
    by (simp add: line_text_def)
  ultimately have ex: "exec reOp ?F = Some (?F, ?g)"
    by (cases ?F) simp_all
  have "upto ?F (TAB # snd l @ patch_text ls) = spec_text (fst l)"
    using upto_append [of "spec_text (fst l)" "TAB # snd l @ patch_text ls"]
    by (simp add: line_text_def)
  then obtain p where m: "Op_of_match (?F, ?g) src c
      = Op_new (Spec_new (spec_text (fst l)) None c) (Some (dropWhile isWs (snd l))) src p"
    by (simp add: Op_of_match_def upto_append upto_Nil Let_def)
  have "Op_parse_loop ?F src c
      = ([Op_new (Spec_new (spec_text (fst l)) None c) (Some (dropWhile isWs (snd l))) src p], [])"
    by (subst Op_parse_loop.simps) (simp add: ex m Op_parse_loop_Nil Op_push_def)
  then have "Op_parse ?F src c
    = Inr ([Op_new (Spec_new (spec_text (fst l)) None c) (Some (dropWhile isWs (snd l))) src p], [])"
    by (simp add: Op_parse_def Op_strip_nl_dropWhile Let_def)
  then show ?thesis by blast
qed


lemma line_text_isDot: "wf_line l \<Longrightarrow> list_all isDot (line_text l)"
  by (simp add: wf_line_def line_text_def spec_text_isDot TAB_plain)

lemma frame_append:
  assumes "wf_line l" and "list_all wf_line ls" and "wf_line l'" and "list_all wf_line ls'"
  shows "\<exists>V ms. (line_text l @ patch_text ls) @ (line_text l' @ patch_text ls')
            = line_text (fst l, V) @ patch_text ms
          \<and> wf_line (fst l, V) \<and> list_all wf_line ms"
proof (cases ls rule: rev_cases)
  case Nil
  let ?V = "snd l @ line_text l'"
  have "(line_text l @ patch_text ls) @ (line_text l' @ patch_text ls')
      = line_text (fst l, ?V) @ patch_text ls'"
    by (simp add: Nil line_text_def patch_text_def)
  moreover from assms(1) line_text_isDot [OF assms(3)] have "wf_line (fst l, ?V)"
    by (simp add: wf_line_def)
  ultimately show ?thesis
    using assms(4) by blast
next
  case (snoc bs m)
  let ?m = "(fst m, snd m @ line_text l')"
  let ?ms = "bs @ ?m # ls'"
  have "(line_text l @ patch_text ls) @ (line_text l' @ patch_text ls')
      = line_text (fst l, snd l) @ patch_text ?ms"
    by (simp add: snoc line_text_def patch_text_def)
  moreover from assms(2) snoc line_text_isDot [OF assms(3)] have "wf_line ?m" "list_all wf_line bs"
    by (simp_all add: wf_line_def)
  with assms(4) have "list_all wf_line ?ms"
    by simp
  moreover from assms(1) have "wf_line (fst l, snd l)"
    by simp
  ultimately show ?thesis
    by blast
qed

definition Op_lines :: "op \<Rightarrow> op list" where
  "Op_lines x =
     (case patch x of None \<Rightarrow> [] | Some es \<Rightarrow> if sp_op (spec x) = Some (js ''on'') then es else [])"

definition stampop_parts :: "spec \<Rightarrow> (jchar \<times> jstring) list" where
  "stampop_parts sp =
     (case sp_version sp of None \<Rightarrow> [] | Some t \<Rightarrow> [(ch CHR ''!'', t)])
     @ (case sp_op sp of None \<Rightarrow> [] | Some t \<Rightarrow> [(ch CHR ''.'', t)])"

definition wf_entry :: "op \<Rightarrow> bool" where
  "wf_entry e =
     (wf_part (sp_version (spec e)) \<and> wf_part (sp_op (spec e)) \<and> Spec_stampop (spec e) \<noteq> []
      \<and> list_all isDot (val e))"

definition serial_op :: "op \<Rightarrow> bool" where
  "serial_op x = (wf_spec (spec x) \<and> list_all isDot (val x) \<and> list_all wf_entry (Op_lines x))"

definition Op_frame_lines :: "op \<Rightarrow> ((jchar \<times> jstring) list \<times> jstring) list" where
  "Op_frame_lines x = map (\<lambda>e. (stampop_parts (spec e), val e)) (Op_lines x)"

lemma foldl_append_concat: "foldl (\<lambda>l p. l @ f p) line ps = line @ concat (map f ps)"
  by (induction ps arbitrary: line) simp_all

lemma Spec_stampop_parts: "Spec_stampop sp = spec_text (stampop_parts sp)"
  by (simp add: Spec_stampop_def stampop_parts_def Spec_part_def spec_text_def split: option.splits)

lemma Op_toString_frame:
  "Op_toString x None = line_text (Spec_parts (spec x), val x) @ patch_text (Op_frame_lines x)"
proof -
  have short: "(\<lambda>e. LF # TAB # Op_toShortString e)
      = (\<lambda>e. LF # TAB # line_text (stampop_parts (spec e), val e))"
    by (simp add: Op_toShortString_def Spec_stampop_parts line_text_def)
  show ?thesis
    by (simp add: Op_toString_def foldl_append_concat short Spec_toString_parts line_text_def
        patch_text_def Op_frame_lines_def Op_lines_def comp_def split: option.splits)
qed

lemma wf_entry_line: "wf_entry e \<Longrightarrow> wf_line (stampop_parts (spec e), val e)"
proof -
  assume e: "wf_entry e"
  then have "wf_parts (stampop_parts (spec e))"
    by (auto simp: wf_entry_def wf_part_def wf_parts_def stampop_parts_def isQuant_def
        split: option.splits)
  moreover from e have "spec_text (stampop_parts (spec e)) \<noteq> []"
    by (simp add: wf_entry_def Spec_stampop_parts)
  then have "stampop_parts (spec e) \<noteq> []"
    by (auto simp: spec_text_def)
  ultimately show ?thesis
    using e by (simp add: wf_line_def wf_entry_def)
qed

lemma serial_op_frame:
  assumes "serial_op x"
  shows "wf_line (Spec_parts (spec x), val x)" and "list_all wf_line (Op_frame_lines x)"
proof -
  from assms show "wf_line (Spec_parts (spec x), val x)"
    by (simp add: serial_op_def wf_line_def wf_spec_parts)
  from assms have "list_all wf_entry (Op_lines x)"
    by (simp add: serial_op_def)
  then show "list_all wf_line (Op_frame_lines x)"
    by (simp add: Op_frame_lines_def list_all_iff wf_entry_line)
qed

lemma parcel_frame:
  "list_all serial_op (x # xs) \<Longrightarrow>
     \<exists>V ms. concat (map (\<lambda>x. Op_toString x None) (x # xs))
              = line_text (Spec_parts (spec x), V) @ patch_text ms
           \<and> wf_line (Spec_parts (spec x), V) \<and> list_all wf_line ms"
proof (induction xs arbitrary: x)
  case Nil
  then have "serial_op x"
    by simp
  from serial_op_frame [OF this] Op_toString_frame [of x] show ?case
    by auto
next
  case (Cons y ys)
  then have x: "serial_op x" and rest: "list_all serial_op (y # ys)"
    by simp_all
  from Cons.IH [OF rest] obtain V' ms' where
    tail: "concat (map (\<lambda>x. Op_toString x None) (y # ys))
        = line_text (Spec_parts (spec y), V') @ patch_text ms'"
    and wf': "wf_line (Spec_parts (spec y), V')" "list_all wf_line ms'"
    by blast
  from frame_append [OF serial_op_frame [OF x] wf'] obtain V ms where
    "(line_text (Spec_parts (spec x), val x) @ patch_text (Op_frame_lines x))
        @ (line_text (Spec_parts (spec y), V') @ patch_text ms')
      = line_text (Spec_parts (spec x), V) @ patch_text ms"
    and "wf_line (Spec_parts (spec x), V)" "list_all wf_line ms"
    by auto
  with tail Op_toString_frame [of x] show ?case
    by (metis concat.simps(2) list.simps(9))
qed

lemma serial_batch_parse:
  assumes "list_all serial_op (x # xs)"
  shows "\<exists>v p. Op_parse (concat (map (\<lambda>x. Op_toString x None) (x # xs))) src None
               = Inr ([Op (spec x) v (case src of None \<Rightarrow> [] | Some s \<Rightarrow> s) p], [])"
proof -
  from parcel_frame [OF assms] obtain V ms where
    parcel: "concat (map (\<lambda>x. Op_toString x None) (x # xs))
        = line_text (Spec_parts (spec x), V) @ patch_text ms"
    and wf: "wf_line (Spec_parts (spec x), V)" "list_all wf_line ms"
    by blast
  from assms have "wf_spec (spec x)"
    by (simp add: serial_op_def)
  from Op_parse_frame [OF wf, of src None] Spec_new_toString [OF this]
  show ?thesis
    unfolding parcel by (auto simp: Spec_toString_parts Op_new_def)
qed

text \<open>
  A handshake with one patch entry and a data op after it: the text of the data op
  becomes part of the value of the patch entry.
\<close>

lemma flushed_patch_batch_example:
  "list_all serial_op
     [Op \<lparr>sp_type = Some (js ''Swarm''), sp_id = Some (js ''db''), sp_version = Some (js ''0+u~ssn''),
          sp_op = Some (js ''on'')\<rparr> [] []
        (Some [Op \<lparr>sp_type = Some (js ''Swarm''), sp_id = Some (js ''db''), sp_version = Some (js ''1+u''),
                    sp_op = Some (js ''set'')\<rparr> (js ''x'') [] None]),
      model_op ''obj2'' ''2+u'' ''set'' (js ''value2'')]
   \<and> flush ((OpStream_init no_options :: jstring opstream)
      \<lparr>pending_s :=
         [Op \<lparr>sp_type = Some (js ''Swarm''), sp_id = Some (js ''db''), sp_version = Some (js ''0+u~ssn''),
              sp_op = Some (js ''on'')\<rparr> [] []
            (Some [Op \<lparr>sp_type = Some (js ''Swarm''), sp_id = Some (js ''db''), sp_version = Some (js ''1+u''),
                        sp_op = Some (js ''set'')\<rparr> (js ''x'') [] None]),
          model_op ''obj2'' ''2+u'' ''set'' (js ''value2'')]\<rparr>)
     = Inr ((OpStream_init no_options)
         \<lparr>written := [(js ''/Swarm#db!0+u~ssn.on'') @ [TAB, LF, TAB] @ (js ''!1+u.set'') @ [TAB] @ (js ''x'')
                      @ (js ''/Model#obj2!2+u.set'') @ [TAB] @ (js ''value2'')]\<rparr>)
   \<and> Op_parse ((js ''/Swarm#db!0+u~ssn.on'') @ [TAB, LF, TAB] @ (js ''!1+u.set'') @ [TAB] @ (js ''x'')
                @ (js ''/Model#obj2!2+u.set'') @ [TAB] @ (js ''value2'')) None None
     = Inr ([Op \<lparr>sp_type = Some (js ''Swarm''), sp_id = Some (js ''db''), sp_version = Some (js ''0+u~ssn''),
                  sp_op = Some (js ''on'')\<rparr> [] []
               (Some [Op \<lparr>sp_type = Some (js ''Swarm''), sp_id = Some (js ''db''),
                           sp_version = Some (js ''1+u''), sp_op = Some (js ''set'')\<rparr>
                        ((js ''x'') @ (js ''/Model#obj2!2+u.set'') @ [TAB] @ (js ''value2'')) [] None])], [])"
  by code_simp

text \<open>
  C10 as amended.  Every flush of an open connection whose transport accepts the write,
  whatever the queue holds, passes exactly one text to the transport: the serialized
  forms of the queued ops, in order, with nothing between them.  When the queue holds
  two or more ops without patch, with well-formed addresses and values that hold no
  line terminator, \<open>Op.parse\<close> reads that text as exactly one op and no remainder: the
  op has the address of the first queued op, and its value is the value of the first op
  followed by the serialized text of all the later ops (less blanks and tabs at its
  front).  When the queued ops may have patch lines the parser can read, \<open>Op.parse\<close>
  still reads the text as exactly one op, with the address of the first, and no
  remainder.
\<close>

theorem flushed_batch_parses_as_one_op:
  assumes "stream st" and "write_throws st = None"
  shows "flush st
      = Inr (st\<lparr>pending_s := [],
               written := written st @ [concat (map (\<lambda>x. Op_toString x None) (pending_s st))],
               lastSendTime := now st\<rparr>)
    \<and> (pending_s st = x # y # ys \<and> list_all plain_op (x # y # ys) \<longrightarrow>
         Op_parse (concat (map (\<lambda>x. Op_toString x None) (pending_s st))) src None
           = Inr ([Op (spec x)
                     (dropWhile isWs (val x @ concat (map (\<lambda>x. Op_toString x None) (y # ys))))
                     (case src of None \<Rightarrow> [] | Some s \<Rightarrow> s) None], []))
    \<and> (pending_s st = x # y # ys \<and> list_all serial_op (x # y # ys) \<longrightarrow>
         (\<exists>v p. Op_parse (concat (map (\<lambda>x. Op_toString x None) (pending_s st))) src None
                  = Inr ([Op (spec x) v (case src of None \<Rightarrow> [] | Some s \<Rightarrow> s) p], [])))"
proof (intro conjI impI)
  show "flush st
      = Inr (st\<lparr>pending_s := [],
               written := written st @ [concat (map (\<lambda>x. Op_toString x None) (pending_s st))],
               lastSendTime := now st\<rparr>)"
    by (rule flush_writes_queue [OF assms])
next
  assume "pending_s st = x # y # ys \<and> list_all plain_op (x # y # ys)"
  then have q: "pending_s st = x # y # ys" and p: "list_all plain_op (x # y # ys)"
    by blast+
  from plain_batch_parse [OF p, of src]
  show "Op_parse (concat (map (\<lambda>x. Op_toString x None) (pending_s st))) src None
           = Inr ([Op (spec x)
                     (dropWhile isWs (val x @ concat (map (\<lambda>x. Op_toString x None) (y # ys))))
                     (case src of None \<Rightarrow> [] | Some s \<Rightarrow> s) None], [])"
    unfolding q .
next
  assume "pending_s st = x # y # ys \<and> list_all serial_op (x # y # ys)"
  then have q: "pending_s st = x # y # ys" and p: "list_all serial_op (x # y # ys)"
    by blast+
  from serial_batch_parse [OF p, of src]
  show "\<exists>v p. Op_parse (concat (map (\<lambda>x. Op_toString x None) (pending_s st))) src None
                  = Inr ([Op (spec x) v (case src of None \<Rightarrow> [] | Some s \<Rightarrow> s) p], [])"
    unfolding q .
qed

text \<open>
  C10 does not hold of every batch: when the value of the first op ends in a newline,
  the text of the two ops has a line for each and \<open>Op.parse\<close> returns two ops, with
  the addresses of the two queued ops.
\<close>

theorem batch_with_newline_counterexample:
  "flush ((OpStream_init no_options :: jstring opstream)
      \<lparr>pending_s := [model_op ''obj1'' ''1+u'' ''set'' ((js ''value1'') @ [LF]),
                     model_op ''obj2'' ''2+u'' ''set'' (js ''value2'')]\<rparr>)
     = Inr ((OpStream_init no_options)
         \<lparr>written := [(js ''/Model#obj1!1+u.set'') @ [TAB] @ (js ''value1'') @ [LF]
                      @ (js ''/Model#obj2!2+u.set'') @ [TAB] @ (js ''value2'')]\<rparr>)
   \<and> Op_parse ((js ''/Model#obj1!1+u.set'') @ [TAB] @ (js ''value1'') @ [LF]
                @ (js ''/Model#obj2!2+u.set'') @ [TAB] @ (js ''value2'')) None None
     = Inr ([model_op ''obj1'' ''1+u'' ''set'' (js ''value1''),
             model_op ''obj2'' ''2+u'' ''set'' (js ''value2'')], [])"
  by code_simp

text \<open>
  A batch of two ops on a fresh connection: \<open>/Model#obj1!1+u.set<TAB>value1\<close> and
  \<open>/Model#obj2!2+u.set<TAB>value2\<close> are written as one text and read as one op with the
  value \<open>value1/Model#obj2!2+u.set<TAB>value2\<close>.
\<close>

theorem flushed_batch_parses_as_one_op_witness:
  "stream ((OpStream_init no_options :: jstring opstream)
      \<lparr>pending_s := [model_op ''obj1'' ''1+u'' ''set'' (js ''value1''),
                     model_op ''obj2'' ''2+u'' ''set'' (js ''value2'')]\<rparr>)
   \<and> write_throws ((OpStream_init no_options :: jstring opstream)
      \<lparr>pending_s := [model_op ''obj1'' ''1+u'' ''set'' (js ''value1''),
                     model_op ''obj2'' ''2+u'' ''set'' (js ''value2'')]\<rparr>) = None
   \<and> list_all plain_op [model_op ''obj1'' ''1+u'' ''set'' (js ''value1''),
                        model_op ''obj2'' ''2+u'' ''set'' (js ''value2'')]
   \<and> list_all serial_op [model_op ''obj1'' ''1+u'' ''set'' (js ''value1''),
                         model_op ''obj2'' ''2+u'' ''set'' (js ''value2'')]
   \<and> flush ((OpStream_init no_options :: jstring opstream)
      \<lparr>pending_s := [model_op ''obj1'' ''1+u'' ''set'' (js ''value1''),
                     model_op ''obj2'' ''2+u'' ''set'' (js ''value2'')]\<rparr>)
     = Inr ((OpStream_init no_options)
         \<lparr>written := [(js ''/Model#obj1!1+u.set'') @ [TAB] @ (js ''value1'')
                      @ (js ''/Model#obj2!2+u.set'') @ [TAB] @ (js ''value2'')]\<rparr>)
   \<and> Op_parse ((js ''/Model#obj1!1+u.set'') @ [TAB] @ (js ''value1'')
                @ (js ''/Model#obj2!2+u.set'') @ [TAB] @ (js ''value2'')) None None
     = Inr ([model_op ''obj1'' ''1+u'' ''set''
               ((js ''value1'') @ (js ''/Model#obj2!2+u.set'') @ [TAB] @ (js ''value2''))], [])"
proof -
  let ?x = "model_op ''obj1'' ''1+u'' ''set'' (js ''value1'')"
  let ?y = "model_op ''obj2'' ''2+u'' ''set'' (js ''value2'')"
  let ?st = "(OpStream_init no_options :: jstring opstream)\<lparr>pending_s := [?x, ?y]\<rparr>"
  let ?parcel = "(js ''/Model#obj1!1+u.set'') @ [TAB] @ (js ''value1'')
                @ (js ''/Model#obj2!2+u.set'') @ [TAB] @ (js ''value2'')"
  have h1: "stream ?st" and h2: "write_throws ?st = None"
    by (simp_all add: OpStream_init_def)
  have h3: "pending_s ?st = ?x # ?y # []"
    by simp
  have h4: "list_all plain_op [?x, ?y]" and h5: "list_all serial_op [?x, ?y]"
    by code_simp+
  have parcel: "concat (map (\<lambda>x. Op_toString x None) (pending_s ?st)) = ?parcel"
    by code_simp
  have v: "Op (spec ?x) (dropWhile isWs (val ?x @ concat (map (\<lambda>x. Op_toString x None) (?y # []))))
             (case None of None \<Rightarrow> [] | Some s \<Rightarrow> s) None
      = model_op ''obj1'' ''1+u'' ''set''
          ((js ''value1'') @ (js ''/Model#obj2!2+u.set'') @ [TAB] @ (js ''value2''))"
    by code_simp
  have after: "?st\<lparr>pending_s := [], written := written ?st @ [?parcel], lastSendTime := now ?st\<rparr>
      = (OpStream_init no_options)\<lparr>written := [?parcel]\<rparr>"
    by (simp add: OpStream_init_def)
  note inst = flushed_batch_parses_as_one_op [OF h1 h2, of ?x ?y "[]" None]
  from inst have c1: "flush ?st = Inr ((OpStream_init no_options)\<lparr>written := [?parcel]\<rparr>)"
    unfolding parcel after by (rule conjunct1)
  from inst h3 h4 have "Op_parse (concat (map (\<lambda>x. Op_toString x None) (pending_s ?st))) None None
      = Inr ([Op (spec ?x) (dropWhile isWs (val ?x @ concat (map (\<lambda>x. Op_toString x None) (?y # []))))
                (case None of None \<Rightarrow> [] | Some s \<Rightarrow> s) None], [])"
    by blast
  then have c2: "Op_parse ?parcel None None
     = Inr ([model_op ''obj1'' ''1+u'' ''set''
               ((js ''value1'') @ (js ''/Model#obj2!2+u.set'') @ [TAB] @ (js ''value2''))], [])"
    unfolding parcel v .
  show ?thesis
    by (intro conjI h1 h2 h4 h5 c1 c2)
qed

end
